theory Spec2Isabelle
  imports Complex_Main "HOL-Library.Word" "HOL-Library.AList"
begin

section \<open>The token bucket of \<open>utils.py\<close>\<close>











section \<open>Python values, exceptions and the libraries the node calls\<close>

type_synonym bytes = "8 word list"

text \<open>
  The Python objects that reach the node: \<^verbatim>\<open>None\<close>, booleans, integers, floats (the 64
  bits of the IEEE 754 double), \<^verbatim>\<open>str\<close> (the bytes of its UTF-8 encoding, one \<open>char\<close>
  each, so that an ASCII string is itself), \<^verbatim>\<open>bytes\<close>, lists, dictionaries (in insertion
  order) and callable objects, which are named.
\<close>

datatype pyval =
    PNone
  | PBool bool
  | PInt int
  | PFloat "64 word"
  | PStr string
  | PBytes bytes
  | PList "pyval list"
  | PDict "(pyval \<times> pyval) list"
  | PFunc string

datatype exn =
    TypeError
  | ValueError
  | KeyError
  | IndexError
  | AttributeError
  | AssertionError
  | KeyboardInterrupt
  | Again
  | ZMQError
  | UnpackException
  | ExtraData
  | OverflowError
  | UnicodeDecodeError
  | OtherError string

text \<open>
  \<^verbatim>\<open>msgpack\<close>, the codec of \<^verbatim>\<open>str\<close> and the callables a caller hands to the node are not
  code of the package. They are parameters of the model: \<open>packb\<close> is
  \<^verbatim>\<open>msgpack.packb(_, use_bin_type=True)\<close>, \<open>unpackb\<close> is \<^verbatim>\<open>msgpack.unpackb(_, raw=False)\<close>,
  \<open>str_encode\<close> is \<^verbatim>\<open>str.encode()\<close>, \<open>bytes_decode\<close> is \<^verbatim>\<open>bytes.decode()\<close>, and
  \<open>invoke f args\<close> tells whether the callable named \<open>f\<close> raises when called with \<open>args\<close>.
\<close>

record environment =
  packb :: "pyval \<Rightarrow> exn + bytes"
  unpackb :: "bytes \<Rightarrow> exn + pyval"
  str_encode :: "string \<Rightarrow> bytes"
  bytes_decode :: "bytes \<Rightarrow> exn + string"
  invoke :: "string \<Rightarrow> pyval list \<Rightarrow> exn option"

text \<open>
  Truth value testing (\<^verbatim>\<open>if x:\<close>, \<^verbatim>\<open>not x\<close>) and \<^verbatim>\<open>callable(x)\<close>. The two floats that are
  false are \<^verbatim>\<open>0.0\<close> and \<^verbatim>\<open>-0.0\<close>.
\<close>

fun truthy :: "pyval \<Rightarrow> bool" where
  "truthy PNone = False"
| "truthy (PBool b) = b"
| "truthy (PInt i) = (i \<noteq> 0)"
| "truthy (PFloat w) = (w \<noteq> 0 \<and> w \<noteq> 0x8000000000000000)"
| "truthy (PStr s) = (s \<noteq> [])"
| "truthy (PBytes bs) = (bs \<noteq> [])"
| "truthy (PList xs) = (xs \<noteq> [])"
| "truthy (PDict kvs) = (kvs \<noteq> [])"
| "truthy (PFunc f) = True"

fun callable :: "pyval \<Rightarrow> bool" where
  "callable (PFunc f) = True"
| "callable v = False"

text \<open>\<^verbatim>\<open>type(x) is str\<close>.\<close>

fun is_str :: "pyval \<Rightarrow> bool" where
  "is_str (PStr s) = True"
| "is_str v = False"

text \<open>\<^verbatim>\<open>d.get(k)\<close> on a dictionary: the value, or \<^verbatim>\<open>None\<close> when the key is absent.\<close>

definition dict_get :: "(pyval \<times> pyval) list \<Rightarrow> pyval \<Rightarrow> pyval" where
  "dict_get kvs k = (case map_of kvs k of None \<Rightarrow> PNone | Some v \<Rightarrow> v)"

text \<open>
  \<^verbatim>\<open>x.get(k)\<close> on any object: only a dictionary has the method, every other kind of
  value of the model raises \<^verbatim>\<open>AttributeError\<close>.
\<close>

fun py_get :: "pyval \<Rightarrow> pyval \<Rightarrow> exn + pyval" where
  "py_get (PDict kvs) k = Inr (dict_get kvs k)"
| "py_get v k = Inl AttributeError"

text \<open>
  \<^verbatim>\<open>x[k] = v\<close> for a string key \<open>k\<close>: a dictionary stores the value (in place of the old
  one, or at the end), every other kind of value raises \<^verbatim>\<open>TypeError\<close>.
\<close>

fun py_setitem :: "pyval \<Rightarrow> string \<Rightarrow> pyval \<Rightarrow> exn + pyval" where
  "py_setitem (PDict kvs) k v = Inr (PDict (AList.update (PStr k) v kvs))"
| "py_setitem x k v = Inl TypeError"

text \<open>\<^verbatim>\<open>xs[i]\<close> on a list, for an index that is not negative.\<close>

definition py_index :: "'a list \<Rightarrow> nat \<Rightarrow> exn + 'a" where
  "py_index xs i = (if i < length xs then Inr (xs ! i) else Inl IndexError)"

section \<open>The node of \<open>__init__.py\<close>\<close>

definition ADAPTER_TOPIC :: string where
  "ADAPTER_TOPIC = ''from_adapter/extensions''"

definition SCRATCH_TOPIC :: string where
  "SCRATCH_TOPIC = ''from_scratch/extensions''"

definition NOTIFICATION_TOPIC :: string where
  "NOTIFICATION_TOPIC = ''notification''"

definition EXTENSIONS_OPERATE_TOPIC :: string where
  "EXTENSIONS_OPERATE_TOPIC = ''adapter_core/extensions/operate''"

definition message_types :: "string list" where
  "message_types = [''notification'', ''from_scratch'', ''from_adapter'', ''current_extension'']"

text \<open>
  A \<^verbatim>\<open>zmq\<close> socket as the node sees it: whether it was closed, the endpoints it was
  connected to, the topic filters set on it and the multipart messages sent on it.
  A closed socket refuses every operation with \<^verbatim>\<open>ZMQError\<close>.
\<close>

record socket =
  closed :: bool
  connected :: "string list"
  subscriptions :: "bytes list"
  sent :: "bytes list list"

definition new_socket :: socket where
  "new_socket = \<lparr>closed = False, connected = [], subscriptions = [], sent = []\<rparr>"

definition socket_connect :: "string \<Rightarrow> socket \<Rightarrow> socket" where
  "socket_connect addr s = s\<lparr>connected := connected s @ [addr]\<rparr>"

definition setsockopt_SUBSCRIBE :: "bytes \<Rightarrow> socket \<Rightarrow> exn + socket" where
  "setsockopt_SUBSCRIBE t s =
     (if closed s then Inl ZMQError else Inr (s\<lparr>subscriptions := subscriptions s @ [t]\<rparr>))"

definition send_multipart :: "bytes list \<Rightarrow> socket \<Rightarrow> exn + socket" where
  "send_multipart frames s =
     (if closed s then Inl ZMQError else Inr (s\<lparr>sent := sent s @ [frames]\<rparr>))"

definition socket_close :: "socket \<Rightarrow> socket" where
  "socket_close s = s\<lparr>closed := True\<rparr>"

text \<open>
  The calls a node makes to code it does not define: its own overridable hook methods
  (by name) and the callables it was given. They are recorded in the field \<open>calls\<close>.
\<close>

datatype call = Method string "pyval list" | Function pyval "pyval list"

text \<open>
  The attributes of an \<^verbatim>\<open>AdapterNode\<close>. \<open>running\<close> is \<^verbatim>\<open>_running\<close>, \<open>handlers\<close> is
  \<^verbatim>\<open>_handlers\<close>, \<open>zmq_terminated\<close> tells whether \<^verbatim>\<open>context.term()\<close> was called. The logger
  and the two sleep durations have no part in what follows and are left out.
\<close>

record node =
  running :: bool
  name :: string
  codelab_adapter_ip_address :: string
  subscriber_port :: string
  publisher_port :: string
  subscriber_list :: "pyval list option"
  external_message_processor :: pyval
  receive_loop_idle_addition :: pyval
  subscriber :: socket
  publisher :: socket
  zmq_terminated :: bool
  EXTENSION_ID :: string
  handlers :: "string \<rightharpoonup> pyval list"
  calls :: "call list"

text \<open>
  A method returns normally with a result or raises; either way it leaves a node behind.
\<close>

type_synonym 'a result = "(exn + 'a) \<times> node"

definition ok :: "node \<Rightarrow> unit result" where
  "ok n = (Inr (), n)"

definition raise :: "exn \<Rightarrow> node \<Rightarrow> 'a result" where
  "raise e n = (Inl e, n)"

definition then_do :: "'a result \<Rightarrow> ('a \<Rightarrow> node \<Rightarrow> 'b result) \<Rightarrow> 'b result" where
  "then_do r f = (case r of (Inl e, n) \<Rightarrow> (Inl e, n) | (Inr x, n) \<Rightarrow> f x n)"

definition lift :: "exn + 'a \<Rightarrow> node \<Rightarrow> 'a result" where
  "lift r n = (r, n)"

text \<open>
  Calling an object: a callable is recorded and returns or raises as the environment
  says; anything else is not callable (\<^verbatim>\<open>TypeError\<close>).
\<close>

fun py_call :: "environment \<Rightarrow> pyval \<Rightarrow> pyval list \<Rightarrow> node \<Rightarrow> unit result" where
  "py_call env (PFunc f) args n =
     (let n1 = n\<lparr>calls := calls n @ [Function (PFunc f) args]\<rparr>
      in case invoke env f args of None \<Rightarrow> ok n1 | Some e \<Rightarrow> raise e n1)"
| "py_call env v args n = raise TypeError n"


subsection \<open>\<open>MessageNode\<close>: subscribing, publishing, cleaning up\<close>

text \<open>
  In every method the node comes last, so that methods chain with \<open>then_do\<close>. The type
  test stands before the first use of the socket, as in the source.
\<close>

definition set_subscriber_topic :: "environment \<Rightarrow> pyval \<Rightarrow> node \<Rightarrow> unit result" where
  "set_subscriber_topic env topic n =
     (case topic of
        PStr t \<Rightarrow>
          (case setsockopt_SUBSCRIBE (str_encode env t) (subscriber n) of
             Inl e \<Rightarrow> raise e n
           | Inr s \<Rightarrow> ok (n\<lparr>subscriber := s\<rparr>))
      | _ \<Rightarrow> raise TypeError n)"

definition publish_payload :: "environment \<Rightarrow> pyval \<Rightarrow> pyval \<Rightarrow> node \<Rightarrow> unit result" where
  "publish_payload env payload topic n =
     (case topic of
        PStr t \<Rightarrow>
          (case packb env payload of
             Inl e \<Rightarrow> raise e n
           | Inr message \<Rightarrow>
               (let pub_envelope = str_encode env t
                in case send_multipart [pub_envelope, message] (publisher n) of
                     Inl e \<Rightarrow> raise e n
                   | Inr s \<Rightarrow> ok (n\<lparr>publisher := s\<rparr>)))
      | _ \<Rightarrow> raise TypeError n)"

definition clean_up :: "node \<Rightarrow> node" where
  "clean_up n =
     (let n1 = n\<lparr>running := False\<rparr>;
          n2 = n1\<lparr>publisher := socket_close (publisher n1)\<rparr>;
          n3 = n2\<lparr>subscriber := socket_close (subscriber n2)\<rparr>
      in n3\<lparr>zmq_terminated := True\<rparr>)"

definition is_running :: "node \<Rightarrow> bool" where
  "is_running n = running n"

subsection \<open>\<open>AdapterNode\<close>: construction, the handler registry, publishing\<close>

fun subscribe_all :: "environment \<Rightarrow> pyval list \<Rightarrow> node \<Rightarrow> unit result" where
  "subscribe_all env [] n = ok n"
| "subscribe_all env (t # ts) n =
     then_do (set_subscriber_topic env t n) (\<lambda>_. subscribe_all env ts)"

text \<open>
  \<^verbatim>\<open>AdapterNode.__init__\<close> with \<^verbatim>\<open>MessageNode.__init__\<close> inlined. The attributes that the
  subclass sets after the call of the parent's constructor (\<open>EXTENSION_ID\<close>, \<open>handlers\<close>)
  are not read by it, so they are set at once. A constructor that raises leaves no node.
\<close>

definition AdapterNode_init ::
  "environment \<Rightarrow> string \<Rightarrow> string option \<Rightarrow> string \<Rightarrow> string \<Rightarrow> pyval list option
     \<Rightarrow> pyval \<Rightarrow> pyval \<Rightarrow> exn + node" where
  "AdapterNode_init env name0 ip sub_port pub_port sub_list processor idle_addition =
     (let addr = (case ip of None \<Rightarrow> ''127.0.0.1''
                    | Some a \<Rightarrow> if a \<noteq> [] then a else ''127.0.0.1'');
          n = \<lparr>running = True,
               name = (if name0 \<noteq> [] then name0 else ''AdapterNode''),
               codelab_adapter_ip_address = addr,
               subscriber_port = sub_port,
               publisher_port = pub_port,
               subscriber_list = sub_list,
               external_message_processor = processor,
               receive_loop_idle_addition = idle_addition,
               subscriber = socket_connect (''tcp://'' @ addr @ '':'' @ sub_port) new_socket,
               publisher = socket_connect (''tcp://'' @ addr @ '':'' @ pub_port) new_socket,
               zmq_terminated = False,
               EXTENSION_ID = ''eim'',
               handlers = (map_of (map (\<lambda>k. (k, [])) message_types))(''all'' \<mapsto> []),
               calls = []\<rparr>
      in case subscribe_all env (case sub_list of None \<Rightarrow> [] | Some ts \<Rightarrow> ts) n of
           (Inl e, n1) \<Rightarrow> Inl e
         | (Inr u, n1) \<Rightarrow> Inr n1)"

text \<open>
  \<^verbatim>\<open>add_handler(func, type)\<close> and \<^verbatim>\<open>get_handlers(type)\<close>. The class key is a string;
  \<^verbatim>\<open>self._handlers[type]\<close> raises \<^verbatim>\<open>KeyError\<close> on a key the dictionary does not hold,
  \<^verbatim>\<open>self._handlers.get(type, [])\<close> does not.
\<close>

definition add_handler :: "pyval \<Rightarrow> string \<Rightarrow> node \<Rightarrow> unit result" where
  "add_handler func type n =
     (if \<not> callable func then raise ValueError n
      else case handlers n type of
             None \<Rightarrow> raise KeyError n
           | Some hs \<Rightarrow> ok (n\<lparr>handlers := (handlers n)(type \<mapsto> hs @ [func])\<rparr>))"

definition get_handlers :: "string \<Rightarrow> node \<Rightarrow> exn + pyval list" where
  "get_handlers type n =
     (let specific = (case handlers n type of None \<Rightarrow> [] | Some hs \<Rightarrow> hs)
      in case handlers n ''all'' of
           None \<Rightarrow> Inl KeyError
         | Some catch_all \<Rightarrow> Inr (specific @ catch_all))"

definition handler :: "pyval \<Rightarrow> node \<Rightarrow> pyval result" where
  "handler f n = then_do (add_handler f ''all'' n) (\<lambda>_ n1. (Inr f, n1))"

text \<open>
  The two hook methods only log in this class; a subclass overrides them. The model
  records that they were called.
\<close>

definition extension_message_handle :: "string \<Rightarrow> pyval \<Rightarrow> node \<Rightarrow> unit result" where
  "extension_message_handle topic payload n =
     ok (n\<lparr>calls := calls n @ [Method ''extension_message_handle'' [PStr topic, payload]]\<rparr>)"

definition exit_message_handle :: "string \<Rightarrow> pyval \<Rightarrow> node \<Rightarrow> unit result" where
  "exit_message_handle topic payload n =
     ok (n\<lparr>calls := calls n @ [Method ''exit_message_handle'' [PStr topic, payload]]\<rparr>)"

definition get_extension_id :: "node \<Rightarrow> string" where
  "get_extension_id n = EXTENSION_ID n"

text \<open>
  \<^verbatim>\<open>publish(message)\<close>. \<^verbatim>\<open>message.get("payload")\<close> is \<^verbatim>\<open>None\<close> when the key is absent,
  and \<^verbatim>\<open>None.get\<close> raises. The payload that is sent is the caller's dictionary after the
  assignment.
\<close>

definition publish :: "environment \<Rightarrow> pyval \<Rightarrow> node \<Rightarrow> unit result" where
  "publish env message n =
     (case message of
        PDict m \<Rightarrow>
          (let topic0 = dict_get m (PStr ''topic'');
               payload0 = dict_get m (PStr ''payload'');
               topic = (if \<not> truthy topic0 then PStr ADAPTER_TOPIC else topic0)
           in then_do (lift (py_get payload0 (PStr ''extension_id'')) n)
                (\<lambda>v n1.
                   then_do
                     (if \<not> truthy v
                      then lift (py_setitem payload0 ''extension_id''
                                   (PStr (get_extension_id n1))) n1
                      else (Inr payload0, n1))
                     (\<lambda>payload n2. publish_payload env payload topic n2)))
      | _ \<Rightarrow> raise AssertionError n)"

definition pub_notification :: "environment \<Rightarrow> pyval \<Rightarrow> pyval \<Rightarrow> pyval \<Rightarrow> node \<Rightarrow> unit result" where
  "pub_notification env content topic type n =
     (let extension_id = get_extension_id n;
          payload = [(PStr ''type'', type), (PStr ''extension_id'', PStr extension_id)];
          payload1 = AList.update (PStr ''content'') content payload
      in publish_payload env (PDict payload1) topic n)"

definition pub_status :: "environment \<Rightarrow> pyval \<Rightarrow> node \<Rightarrow> unit result" where
  "pub_status env statu n =
     (let topic = ADAPTER_TOPIC @ ''/status'';
          extension_id = get_extension_id n;
          payload = [(PStr ''extension_id'', PStr extension_id)];
          payload1 = AList.update (PStr ''content'') statu payload
      in publish_payload env (PDict payload1) (PStr topic) n)"

subsection \<open>Dispatch and the receive loop\<close>

text \<open>
  \<^verbatim>\<open>AdapterNode.message_handle\<close>: three tests one after the other; an exception in one
  of them ends the method.
\<close>

definition message_handle :: "environment \<Rightarrow> string \<Rightarrow> pyval \<Rightarrow> node \<Rightarrow> unit result" where
  "message_handle env topic payload n =
     then_do
       (if topic = SCRATCH_TOPIC then
          then_do (lift (py_get payload (PStr ''extension_id'')) n)
            (\<lambda>v n1. if v = PStr (get_extension_id n1)
                     then extension_message_handle topic payload n1 else ok n1)
        else ok n)
       (\<lambda>_ n2.
          then_do
            (if topic = EXTENSIONS_OPERATE_TOPIC then
               then_do (lift (py_get payload (PStr ''extension_id'')) n2)
                 (\<lambda>v n3. if v = PStr (get_extension_id n3)
                          then exit_message_handle topic payload n3 else ok n3)
             else ok n2)
            (\<lambda>_ n4.
               if truthy (external_message_processor n4)
               then py_call env (external_message_processor n4) [PStr topic, payload] n4
               else ok n4))"

text \<open>
  What the outside does in one turn of the loop: \<open>Message frames\<close>, the socket hands
  a multipart message over; \<open>Idle\<close>, \<^verbatim>\<open>recv_multipart(zmq.NOBLOCK)\<close> raises
  \<^verbatim>\<open>zmq.error.Again\<close> and the sleep runs to its end; \<open>Interrupt\<close>, it raises
  \<^verbatim>\<open>zmq.error.Again\<close> and \<^verbatim>\<open>KeyboardInterrupt\<close> arrives during the sleep.
\<close>

datatype event = Message "bytes list" | Idle | Interrupt

text \<open>The body of the outer \<^verbatim>\<open>try\<close>.\<close>

definition try_block :: "environment \<Rightarrow> event \<Rightarrow> node \<Rightarrow> unit result" where
  "try_block env ev n =
     (case ev of
        Message data \<Rightarrow>
          then_do (lift (py_index data 0) n)
            (\<lambda>frame0 n1. then_do (lift (bytes_decode env frame0) n1)
            (\<lambda>topic n2. then_do (lift (py_index data 1) n2)
            (\<lambda>frame1 n3. then_do (lift (unpackb env frame1) n3)
            (\<lambda>payload n4. message_handle env topic payload n4))))
      | _ \<Rightarrow> raise Again n)"

text \<open>
  The handler of \<^verbatim>\<open>zmq.error.Again\<close>: the idle hook if there is one, the sleep, and
  around both the handler of \<^verbatim>\<open>KeyboardInterrupt\<close>, which cleans up and raises
  \<^verbatim>\<open>KeyboardInterrupt\<close>.
\<close>

definition idle_block :: "environment \<Rightarrow> event \<Rightarrow> node \<Rightarrow> unit result" where
  "idle_block env ev n =
     (case then_do
             (if truthy (receive_loop_idle_addition n)
              then py_call env (receive_loop_idle_addition n) [] n else ok n)
             (\<lambda>_ n1. if ev = Interrupt then raise KeyboardInterrupt n1 else ok n1) of
        (Inl e, n2) \<Rightarrow>
          if e = KeyboardInterrupt then raise KeyboardInterrupt (clean_up n2)
          else raise e n2
      | (Inr u, n2) \<Rightarrow> ok n2)"

text \<open>One turn of the \<^verbatim>\<open>while\<close> loop: only \<^verbatim>\<open>zmq.error.Again\<close> is caught.\<close>

definition loop_body :: "environment \<Rightarrow> event \<Rightarrow> node \<Rightarrow> unit result" where
  "loop_body env ev n =
     (case try_block env ev n of
        (Inl e, n1) \<Rightarrow> if e = Again then idle_block env ev n1 else raise e n1
      | (Inr u, n1) \<Rightarrow> ok n1)"

text \<open>
  The loop over what the outside does, turn by turn. It returns when the flag is
  cleared, it ends with the exception that leaves the loop body, and it is \<open>Pending\<close>
  (still running and waiting) when the listed turns are over.
\<close>

datatype outcome = Returned | Raised exn | Pending

fun receive_loop :: "environment \<Rightarrow> event list \<Rightarrow> node \<Rightarrow> outcome \<times> node" where
  "receive_loop env [] n = (if running n then Pending else Returned, n)"
| "receive_loop env (ev # evs) n =
     (if running n then
        (case loop_body env ev n of
           (Inl e, n1) \<Rightarrow> (Raised e, n1)
         | (Inr u, n1) \<Rightarrow> receive_loop env evs n1)
      else (Returned, n))"

definition terminate :: "node \<Rightarrow> node" where
  "terminate n = clean_up n"

subsection \<open>Callers\<close>

text \<open>
  A caller that registers handlers one after the other and goes on after a registration
  that raised; \<open>registered regs key\<close> are the callables among them given for \<open>key\<close>, in
  the order of the calls.
\<close>

definition add_handlers :: "(pyval \<times> string) list \<Rightarrow> node \<Rightarrow> node" where
  "add_handlers regs n = foldl (\<lambda>n1 (f, k). snd (add_handler f k n1)) n regs"

definition registered :: "(pyval \<times> string) list \<Rightarrow> string \<Rightarrow> pyval list" where
  "registered regs key = map fst (filter (\<lambda>(f, k). callable f \<and> k = key) regs)"

text \<open>
  The idle hook comes back: there is none, or it is a callable that does not raise when
  called without arguments.
\<close>

definition idle_hook_returns :: "environment \<Rightarrow> node \<Rightarrow> bool" where
  "idle_hook_returns env n =
     (case receive_loop_idle_addition n of
        PFunc f \<Rightarrow> invoke env f [] = None
      | v \<Rightarrow> \<not> truthy v)"

section \<open>An environment and a node for the examples\<close>

text \<open>
  Strings of the examples are ASCII, where \<^verbatim>\<open>str.encode()\<close> gives one byte for each
  character. The codec of the examples knows the MessagePack encodings of two payloads,
  \<^verbatim>\<open>{}\<close> and \<^verbatim>\<open>{"extension_id": "eim"}\<close>, and takes every other byte string as
  malformed; no callable raises.
\<close>

definition ascii_encode :: "string \<Rightarrow> bytes" where
  "ascii_encode s = map (\<lambda>c. of_nat (of_char c)) s"

definition ascii_decode :: "bytes \<Rightarrow> exn + string" where
  "ascii_decode bs =
     (if list_all (\<lambda>b. b < 128) bs then Inr (map (\<lambda>b. char_of (unat b)) bs)
      else Inl UnicodeDecodeError)"

definition example_messages :: "(bytes \<times> pyval) list" where
  "example_messages =
     [([0x80], PDict []),
      ([0x81, 0xac] @ ascii_encode ''extension_id'' @ [0xa3] @ ascii_encode ''eim'',
       PDict [(PStr ''extension_id'', PStr ''eim'')])]"

definition example_env :: environment where
  "example_env =
     \<lparr>packb = (\<lambda>v. case map_of (map (\<lambda>(bs, v). (v, bs)) example_messages) v of
                     None \<Rightarrow> Inl TypeError | Some bs \<Rightarrow> Inr bs),
      unpackb = (\<lambda>bs. case map_of example_messages bs of
                     None \<Rightarrow> Inl UnpackException | Some v \<Rightarrow> Inr v),
      str_encode = ascii_encode,
      bytes_decode = ascii_decode,
      invoke = (\<lambda>f args. None)\<rparr>"

text \<open>The node that the constructor returns for its default arguments.\<close>

definition example_node :: node where
  "example_node =
     \<lparr>running = True,
      name = ''AdapterNode'',
      codelab_adapter_ip_address = ''127.0.0.1'',
      subscriber_port = ''16103'',
      publisher_port = ''16130'',
      subscriber_list = Some [PStr SCRATCH_TOPIC, PStr EXTENSIONS_OPERATE_TOPIC],
      external_message_processor = PNone,
      receive_loop_idle_addition = PNone,
      subscriber = \<lparr>closed = False, connected = [''tcp://127.0.0.1:16103''],
                    subscriptions = [ascii_encode SCRATCH_TOPIC,
                                     ascii_encode EXTENSIONS_OPERATE_TOPIC],
                    sent = []\<rparr>,
      publisher = \<lparr>closed = False, connected = [''tcp://127.0.0.1:16130''],
                   subscriptions = [], sent = []\<rparr>,
      zmq_terminated = False,
      EXTENSION_ID = ''eim'',
      handlers = (map_of (map (\<lambda>k. (k, [])) message_types))(''all'' \<mapsto> []),
      calls = []\<rparr>"

section \<open>The envelope codec\<close>

text \<open>
  Modelled from the spec: the Envelope Codec of the spec (\<^verbatim>\<open>encode(payload) -> bytes\<close>,
  \<^verbatim>\<open>decode(bytes) -> payload\<close>). The functions that do this work,
  \<^verbatim>\<open>msgpack.packb(payload, use_bin_type=True)\<close> and \<^verbatim>\<open>msgpack.unpackb(frame, raw=False)\<close>,
  belong to the msgpack library and are missing from the sources, which only call them.
  The compact binary form of the spec is written out as MessagePack, the format the
  calls name. \<open>andthen\<close> chains two steps, the first of which may raise.
\<close>

definition andthen :: "exn + 'a \<Rightarrow> ('a \<Rightarrow> exn + 'b) \<Rightarrow> exn + 'b" where
  "andthen r f = (case r of Inl e \<Rightarrow> Inl e | Inr x \<Rightarrow> f x)"

text \<open>
  Modelled from the spec: the fields of the binary form that hold an unsigned number in
  \<open>k\<close> bytes, most significant byte first, and the readers of such a field and of \<open>n\<close> raw
  bytes; input that ends too early is \<^verbatim>\<open>ValueError\<close> (incomplete input).
\<close>

fun be :: "nat \<Rightarrow> nat \<Rightarrow> bytes" where
  "be 0 n = []"
| "be (Suc k) n = of_nat (n div 256 ^ k) # be k (n mod 256 ^ k)"

text \<open>Modelled from the spec: the number that the bytes of a field hold.\<close>

definition from_be :: "bytes \<Rightarrow> nat" where
  "from_be bs = foldl (\<lambda>a b. a * 256 + unat b) 0 bs"

text \<open>Modelled from the spec: reading a field of \<open>k\<close> bytes off the input.\<close>

definition read_be :: "nat \<Rightarrow> bytes \<Rightarrow> exn + nat \<times> bytes" where
  "read_be k bs =
     (if length bs < k then Inl ValueError else Inr (from_be (take k bs), drop k bs))"

text \<open>Modelled from the spec: reading \<open>n\<close> raw bytes off the input.\<close>

definition read_raw :: "nat \<Rightarrow> bytes \<Rightarrow> exn + bytes \<times> bytes" where
  "read_raw n bs = (if length bs < n then Inl ValueError else Inr (take n bs, drop n bs))"

text \<open>
  Modelled from the spec: strings travel as UTF-8. \<open>valid_utf8\<close> accepts the byte
  sequences that \<^verbatim>\<open>raw=False\<close> decodes: shortest form only, no surrogates, nothing above
  \<^verbatim>\<open>U+10FFFF\<close>.
\<close>

definition continuation :: "nat \<Rightarrow> bool" where
  "continuation b = (0x80 \<le> b \<and> b \<le> 0xBF)"

text \<open>Modelled from the spec: the well-formed UTF-8 byte sequences.\<close>

fun valid_utf8 :: "nat list \<Rightarrow> bool" where
  "valid_utf8 [] = True"
| "valid_utf8 (b0 # bs) =
     (if b0 < 0x80 then valid_utf8 bs
      else if 0xC2 \<le> b0 \<and> b0 \<le> 0xDF then
        (case bs of b1 # r \<Rightarrow> continuation b1 \<and> valid_utf8 r | _ \<Rightarrow> False)
      else if 0xE0 \<le> b0 \<and> b0 \<le> 0xEF then
        (case bs of
           b1 # b2 # r \<Rightarrow>
             (if b0 = 0xE0 then 0xA0 \<le> b1 \<and> b1 \<le> 0xBF
              else if b0 = 0xED then 0x80 \<le> b1 \<and> b1 \<le> 0x9F
              else continuation b1)
             \<and> continuation b2 \<and> valid_utf8 r
         | _ \<Rightarrow> False)
      else if 0xF0 \<le> b0 \<and> b0 \<le> 0xF4 then
        (case bs of
           b1 # b2 # b3 # r \<Rightarrow>
             (if b0 = 0xF0 then 0x90 \<le> b1 \<and> b1 \<le> 0xBF
              else if b0 = 0xF4 then 0x80 \<le> b1 \<and> b1 \<le> 0x8F
              else continuation b1)
             \<and> continuation b2 \<and> continuation b3 \<and> valid_utf8 r
         | _ \<Rightarrow> False)
      else False)"

text \<open>
  Modelled from the spec: integers, in the smallest of the ten MessagePack integer forms
  that holds the value; an integer below \<open>-2\<^sup>6\<^sup>3\<close> or above \<open>2\<^sup>6\<^sup>4 - 1\<close> has no form
  (\<^verbatim>\<open>OverflowError\<close>).
\<close>

definition pack_int :: "int \<Rightarrow> exn + bytes" where
  "pack_int i =
     (if 0 \<le> i \<and> i < 0x80 then Inr [of_int i]
      else if - 0x20 \<le> i \<and> i < 0 then Inr [of_int i]
      else if 0x80 \<le> i \<and> i \<le> 0xFF then Inr [0xCC, of_int i]
      else if - 0x80 \<le> i \<and> i < 0 then Inr [0xD0, of_int i]
      else if 0xFF < i \<and> i \<le> 0xFFFF then Inr (0xCD # be 2 (nat i))
      else if - 0x8000 \<le> i \<and> i < - 0x80 then Inr (0xD1 # be 2 (nat (i + 2 ^ 16)))
      else if 0xFFFF < i \<and> i \<le> 0xFFFFFFFF then Inr (0xCE # be 4 (nat i))
      else if - 0x80000000 \<le> i \<and> i < - 0x8000 then Inr (0xD2 # be 4 (nat (i + 2 ^ 32)))
      else if 0xFFFFFFFF < i \<and> i \<le> 0xFFFFFFFFFFFFFFFF then Inr (0xCF # be 8 (nat i))
      else if - 0x8000000000000000 \<le> i \<and> i < - 0x80000000
        then Inr (0xD3 # be 8 (nat (i + 2 ^ 64)))
      else Inl OverflowError)"

text \<open>
  Modelled from the spec: the headers of strings (with \<^verbatim>\<open>use_bin_type=True\<close> the form
  \<^verbatim>\<open>str 8\<close> is used), of \<^verbatim>\<open>bytes\<close>, of sequences and of mappings, each with the length or
  the number of entries; \<open>2\<^sup>3\<^sup>2\<close> or more is \<^verbatim>\<open>ValueError\<close>.
\<close>

definition raw_header :: "nat \<Rightarrow> exn + bytes" where
  "raw_header n =
     (if n \<le> 0x1F then Inr [of_nat (0xA0 + n)]
      else if n \<le> 0xFF then Inr [0xD9, of_nat n]
      else if n \<le> 0xFFFF then Inr (0xDA # be 2 n)
      else if n \<le> 0xFFFFFFFF then Inr (0xDB # be 4 n)
      else Inl ValueError)"

text \<open>Modelled from the spec: the header of \<^verbatim>\<open>bytes\<close> (bin 8, bin 16, bin 32).\<close>

definition bin_header :: "nat \<Rightarrow> exn + bytes" where
  "bin_header n =
     (if n \<le> 0xFF then Inr [0xC4, of_nat n]
      else if n \<le> 0xFFFF then Inr (0xC5 # be 2 n)
      else if n \<le> 0xFFFFFFFF then Inr (0xC6 # be 4 n)
      else Inl ValueError)"

text \<open>Modelled from the spec: the header of a sequence (fixarray, array 16, array 32).\<close>

definition array_header :: "nat \<Rightarrow> exn + bytes" where
  "array_header n =
     (if n \<le> 0x0F then Inr [of_nat (0x90 + n)]
      else if n \<le> 0xFFFF then Inr (0xDC # be 2 n)
      else if n \<le> 0xFFFFFFFF then Inr (0xDD # be 4 n)
      else Inl ValueError)"

text \<open>Modelled from the spec: the header of a mapping (fixmap, map 16, map 32).\<close>

definition map_header :: "nat \<Rightarrow> exn + bytes" where
  "map_header n =
     (if n \<le> 0x0F then Inr [of_nat (0x80 + n)]
      else if n \<le> 0xFFFF then Inr (0xDE # be 2 n)
      else if n \<le> 0xFFFFFFFF then Inr (0xDF # be 4 n)
      else Inl ValueError)"

text \<open>
  Modelled from the spec: \<^verbatim>\<open>encode\<close>. A sequence is its header and its elements in
  order, a mapping is its header and key, value, key, value in insertion order; the first
  element that cannot be encoded ends the encoding with its error; a callable cannot be
  serialised (\<^verbatim>\<open>TypeError\<close>). A float is written as its 64 bits.
\<close>

fun pack_seq :: "(exn + bytes) list \<Rightarrow> exn + bytes" where
  "pack_seq [] = Inr []"
| "pack_seq (r # rs) = andthen r (\<lambda>b. andthen (pack_seq rs) (\<lambda>bs. Inr (b @ bs)))"

text \<open>Modelled from the spec: \<^verbatim>\<open>encode\<close> of one value.\<close>

fun pack :: "pyval \<Rightarrow> exn + bytes" where
  "pack PNone = Inr [0xC0]"
| "pack (PBool b) = Inr [if b then 0xC3 else 0xC2]"
| "pack (PInt i) = pack_int i"
| "pack (PFloat w) = Inr (0xCB # be 8 (unat w))"
| "pack (PStr s) =
     andthen (raw_header (length s)) (\<lambda>h. Inr (h @ map (\<lambda>c. of_nat (of_char c)) s))"
| "pack (PBytes bs) = andthen (bin_header (length bs)) (\<lambda>h. Inr (h @ bs))"
| "pack (PList xs) =
     andthen (array_header (length xs))
       (\<lambda>h. andthen (pack_seq (map pack xs)) (\<lambda>body. Inr (h @ body)))"
| "pack (PDict kvs) =
     andthen (map_header (length kvs))
       (\<lambda>h. andthen (pack_seq (concat (map (\<lambda>kv. [pack (fst kv), pack (snd kv)]) kvs)))
          (\<lambda>body. Inr (h @ body)))"
| "pack (PFunc f) = Inl TypeError"



text \<open>
  Modelled from the spec: the readers of the scalar forms. A string must be valid UTF-8
  (\<^verbatim>\<open>UnicodeDecodeError\<close> otherwise); a signed field is read as two's complement.
\<close>

definition unpack_str :: "nat \<Rightarrow> bytes \<Rightarrow> exn + pyval \<times> bytes" where
  "unpack_str n bs =
     andthen (read_raw n bs)
       (\<lambda>(raw, rest). if valid_utf8 (map unat raw)
                       then Inr (PStr (map (\<lambda>b. char_of (unat b)) raw), rest)
                       else Inl UnicodeDecodeError)"

text \<open>Modelled from the spec: the reader of \<^verbatim>\<open>bytes\<close> of a given length.\<close>

definition unpack_bin :: "nat \<Rightarrow> bytes \<Rightarrow> exn + pyval \<times> bytes" where
  "unpack_bin n bs = andthen (read_raw n bs) (\<lambda>(raw, rest). Inr (PBytes raw, rest))"

text \<open>Modelled from the spec: the reader of an unsigned integer of \<open>k\<close> bytes.\<close>

definition unpack_uint :: "nat \<Rightarrow> bytes \<Rightarrow> exn + pyval \<times> bytes" where
  "unpack_uint k bs = andthen (read_be k bs) (\<lambda>(n, rest). Inr (PInt (int n), rest))"

text \<open>Modelled from the spec: the reader of a signed integer of \<open>k\<close> bytes.\<close>

definition unpack_sint :: "nat \<Rightarrow> bytes \<Rightarrow> exn + pyval \<times> bytes" where
  "unpack_sint k bs =
     andthen (read_be k bs)
       (\<lambda>(n, rest). Inr (PInt (if n < 2 ^ (8 * k - 1) then int n else int n - 2 ^ (8 * k)), rest))"

text \<open>
  Modelled from the spec: the first byte of a value says which form follows. \<open>read_head\<close>
  reads a scalar whole, and for a sequence or a mapping the number of entries that
  follow. The byte \<^verbatim>\<open>0xc1\<close>, and the forms for values the spec's data model does not have
  (extension types, 32-bit floats), are rejected as malformed (\<open>UnpackException\<close>).
\<close>

datatype head = Scalar pyval bytes | Array nat bytes | Map nat bytes

text \<open>Modelled from the spec: a scalar read whole, as a head.\<close>

definition scalar :: "exn + pyval \<times> bytes \<Rightarrow> exn + head" where
  "scalar r = andthen r (\<lambda>(v, rest). Inr (Scalar v rest))"

text \<open>Modelled from the spec: the forms by their first byte.\<close>

definition read_head :: "bytes \<Rightarrow> exn + head" where
  "read_head bs0 =
     (case bs0 of
        [] \<Rightarrow> Inl ValueError
      | b0 # bs \<Rightarrow>
         (let b = unat b0 in
          if b < 0x80 then Inr (Scalar (PInt (int b)) bs)
          else if b < 0x90 then Inr (Map (b - 0x80) bs)
          else if b < 0xA0 then Inr (Array (b - 0x90) bs)
          else if b < 0xC0 then scalar (unpack_str (b - 0xA0) bs)
          else if b = 0xC0 then Inr (Scalar PNone bs)
          else if b = 0xC2 then Inr (Scalar (PBool False) bs)
          else if b = 0xC3 then Inr (Scalar (PBool True) bs)
          else if b = 0xC4 then scalar (andthen (read_be 1 bs) (\<lambda>(n, rest). unpack_bin n rest))
          else if b = 0xC5 then scalar (andthen (read_be 2 bs) (\<lambda>(n, rest). unpack_bin n rest))
          else if b = 0xC6 then scalar (andthen (read_be 4 bs) (\<lambda>(n, rest). unpack_bin n rest))
          else if b = 0xCB then
            scalar (andthen (read_be 8 bs) (\<lambda>(n, rest). Inr (PFloat (of_nat n), rest)))
          else if b = 0xCC then scalar (unpack_uint 1 bs)
          else if b = 0xCD then scalar (unpack_uint 2 bs)
          else if b = 0xCE then scalar (unpack_uint 4 bs)
          else if b = 0xCF then scalar (unpack_uint 8 bs)
          else if b = 0xD0 then scalar (unpack_sint 1 bs)
          else if b = 0xD1 then scalar (unpack_sint 2 bs)
          else if b = 0xD2 then scalar (unpack_sint 4 bs)
          else if b = 0xD3 then scalar (unpack_sint 8 bs)
          else if b = 0xD9 then scalar (andthen (read_be 1 bs) (\<lambda>(n, rest). unpack_str n rest))
          else if b = 0xDA then scalar (andthen (read_be 2 bs) (\<lambda>(n, rest). unpack_str n rest))
          else if b = 0xDB then scalar (andthen (read_be 4 bs) (\<lambda>(n, rest). unpack_str n rest))
          else if b = 0xDC then andthen (read_be 2 bs) (\<lambda>(n, rest). Inr (Array n rest))
          else if b = 0xDD then andthen (read_be 4 bs) (\<lambda>(n, rest). Inr (Array n rest))
          else if b = 0xDE then andthen (read_be 2 bs) (\<lambda>(n, rest). Inr (Map n rest))
          else if b = 0xDF then andthen (read_be 4 bs) (\<lambda>(n, rest). Inr (Map n rest))
          else if 0xE0 \<le> b then Inr (Scalar (PInt (int b - 0x100)) bs)
          else Inl UnpackException))"

text \<open>
  Modelled from the spec: the keys of a decoded mapping are strings (or \<^verbatim>\<open>bytes\<close>), as in
  the spec's data model; any other key is \<^verbatim>\<open>ValueError\<close>. \<open>dict_of\<close> builds the dictionary
  by assignments in the order of the pairs.
\<close>

fun is_map_key :: "pyval \<Rightarrow> bool" where
  "is_map_key (PStr s) = True"
| "is_map_key (PBytes bs) = True"
| "is_map_key v = False"

text \<open>Modelled from the spec: the dictionary that a list of decoded pairs gives.\<close>

definition dict_of :: "(pyval \<times> pyval) list \<Rightarrow> (pyval \<times> pyval) list" where
  "dict_of kvs = foldl (\<lambda>d (k, v). AList.update k v d) [] kvs"

text \<open>
  Modelled from the spec: \<^verbatim>\<open>decode\<close> of one value from the front of the input, with what
  is left of the input. The first argument bounds the nesting; a value nested \<open>d\<close> deep
  takes more than \<open>d\<close> bytes, so the number of bytes of the input is bound enough.
\<close>

fun unpack :: "nat \<Rightarrow> bytes \<Rightarrow> exn + pyval \<times> bytes"
  and unpack_items :: "nat \<Rightarrow> nat \<Rightarrow> bytes \<Rightarrow> exn + pyval list \<times> bytes"
  and unpack_pairs :: "nat \<Rightarrow> nat \<Rightarrow> bytes \<Rightarrow> exn + (pyval \<times> pyval) list \<times> bytes" where
  "unpack 0 bs = Inl ValueError"
| "unpack (Suc f) bs =
     andthen (read_head bs)
       (\<lambda>h. case h of
          Scalar v rest \<Rightarrow> Inr (v, rest)
        | Array n rest \<Rightarrow>
            andthen (unpack_items f n rest) (\<lambda>(xs, rest1). Inr (PList xs, rest1))
        | Map n rest \<Rightarrow>
            andthen (unpack_pairs f n rest) (\<lambda>(kvs, rest1). Inr (PDict (dict_of kvs), rest1)))"
| "unpack_items f 0 bs = Inr ([], bs)"
| "unpack_items f (Suc n) bs =
     andthen (unpack f bs)
       (\<lambda>(x, rest). andthen (unpack_items f n rest) (\<lambda>(xs, rest1). Inr (x # xs, rest1)))"
| "unpack_pairs f 0 bs = Inr ([], bs)"
| "unpack_pairs f (Suc n) bs =
     andthen (unpack f bs)
       (\<lambda>(k, rest).
          if \<not> is_map_key k then Inl ValueError
          else andthen (unpack f rest)
                 (\<lambda>(v, rest1). andthen (unpack_pairs f n rest1)
                    (\<lambda>(kvs, rest2). Inr ((k, v) # kvs, rest2))))"

text \<open>
  Modelled from the spec: \<^verbatim>\<open>encode\<close> and \<^verbatim>\<open>decode\<close> of a whole frame. Bytes left over
  after the value are an error (\<open>ExtraData\<close>).
\<close>

definition msgpack_packb :: "pyval \<Rightarrow> exn + bytes" where
  "msgpack_packb v = pack v"

text \<open>Modelled from the spec: \<^verbatim>\<open>decode\<close> of a whole frame.\<close>

definition msgpack_unpackb :: "bytes \<Rightarrow> exn + pyval" where
  "msgpack_unpackb bs =
     andthen (unpack (length bs) bs)
       (\<lambda>(v, rest). if rest = [] then Inr v else Inl ExtraData)"



text \<open>
  The values of the model that stand for Python payloads of the spec's data model: every
  string is the UTF-8 encoding of a \<^verbatim>\<open>str\<close>, and in every mapping the keys are strings (or
  \<^verbatim>\<open>bytes\<close>) and no key occurs twice. \<open>in_range\<close>: the values MessagePack has a form for.
\<close>

fun wellformed :: "pyval \<Rightarrow> bool" where
  "wellformed (PStr s) = valid_utf8 (map of_char s)"
| "wellformed (PList xs) = (\<forall>x\<in>set xs. wellformed x)"
| "wellformed (PDict kvs) =
     (distinct (map fst kvs)
      \<and> (\<forall>kv\<in>set kvs. is_map_key (fst kv) \<and> wellformed (fst kv) \<and> wellformed (snd kv)))"
| "wellformed v = True"

fun in_range :: "pyval \<Rightarrow> bool" where
  "in_range (PInt i) = (- 0x8000000000000000 \<le> i \<and> i \<le> 0xFFFFFFFFFFFFFFFF)"
| "in_range (PStr s) = (length s \<le> 0xFFFFFFFF)"
| "in_range (PBytes bs) = (length bs \<le> 0xFFFFFFFF)"
| "in_range (PList xs) = (length xs \<le> 0xFFFFFFFF \<and> (\<forall>x\<in>set xs. in_range x))"
| "in_range (PDict kvs) =
     (length kvs \<le> 0xFFFFFFFF \<and> (\<forall>kv\<in>set kvs. in_range (fst kv) \<and> in_range (snd kv)))"
| "in_range (PFunc f) = False"
| "in_range v = True"


text \<open>
  A payload three levels deep and more that mixes all kinds of values:
  \<^verbatim>\<open>{"content": [1, -200, 70000, 3.5, "hi", True, None, {"k": [5000000000]}]}\<close>.
\<close>

definition example_payload :: pyval where
  "example_payload =
     PDict [(PStr ''content'',
             PList [PInt 1, PInt (- 200), PInt 70000, PFloat 0x400C000000000000, PStr ''hi'',
                    PBool True, PNone, PDict [(PStr ''k'', PList [PInt 5000000000])]])]"

section \<open>The token bucket: consuming and refilling\<close>








section \<open>The node: argument checks and publishing\<close>

lemma then_do_simps:
  "then_do (Inl e, n) f = (Inl e, n)"
  "then_do (Inr x, n) f = f x n"
  by (simp_all add: then_do_def)

lemma example_node_constructed:
  "AdapterNode_init example_env [] None ''16103'' ''16130''
     (Some [PStr SCRATCH_TOPIC, PStr EXTENSIONS_OPERATE_TOPIC]) PNone PNone = Inr example_node"
  by (simp add: AdapterNode_init_def example_node_def example_env_def set_subscriber_topic_def
      setsockopt_SUBSCRIBE_def socket_connect_def new_socket_def then_do_simps ok_def)

text \<open>
  Claim C5. For every topic that is not a \<^verbatim>\<open>str\<close>, \<^verbatim>\<open>set_subscriber_topic\<close> and
  \<^verbatim>\<open>publish_payload\<close> both raise \<^verbatim>\<open>TypeError\<close> and leave the node as it was: no topic
  filter is set and nothing is sent, whatever the payload and the state of the sockets.
\<close>

theorem non_string_topic_rejected:
  "\<not> is_str topic \<Longrightarrow>
     set_subscriber_topic env topic n = (Inl TypeError, n)
     \<and> publish_payload env payload topic n = (Inl TypeError, n)"
  by (cases topic) (simp_all add: set_subscriber_topic_def publish_payload_def raise_def)

theorem non_string_topic_rejected_witness:
  "set_subscriber_topic example_env (PInt 5) example_node = (Inl TypeError, example_node)
   \<and> publish_payload example_env (PDict []) (PInt 5) example_node
       = (Inl TypeError, example_node)"
proof -
  have h: "\<not> is_str (PInt 5)" by simp
  show ?thesis using non_string_topic_rejected [OF h] by simp
qed

lemma update_absent:
  "map_of kvs k = None \<Longrightarrow> AList.update k v kvs = kvs @ [(k, v)]"
  by (induction kvs) (auto split: if_splits)

text \<open>
  Claim C6. \<^verbatim>\<open>publish(message)\<close> on a dictionary \<open>m\<close>: without a payload it raises
  (\<^verbatim>\<open>AttributeError\<close>) and sends nothing. With a payload that is a dictionary \<open>p\<close>, a topic
  that is absent or a string that is not empty, and a publisher that is open, it sends
  exactly one two-frame message and changes nothing else: the first frame is the topic,
  \<open>ADAPTER_TOPIC\<close> when the message has none; the second frame is the packed payload, which
  is \<open>p\<close> with the node's \<open>EXTENSION_ID\<close> added under \<^verbatim>\<open>"extension_id"\<close> when \<open>p\<close> has no
  such key, and \<open>p\<close> itself when it has one with a true value.
\<close>

theorem publish_contract:
  "(map_of m (PStr ''payload'') = None \<longrightarrow> publish env (PDict m) n = (Inl AttributeError, n))
   \<and> (map_of m (PStr ''payload'') = Some (PDict p)
        \<and> (map_of m (PStr ''topic'') = None \<and> t = ADAPTER_TOPIC
             \<or> map_of m (PStr ''topic'') = Some (PStr t) \<and> t \<noteq> [])
        \<and> (map_of p (PStr ''extension_id'') = None
               \<and> q = p @ [(PStr ''extension_id'', PStr (EXTENSION_ID n))]
             \<or> truthy (dict_get p (PStr ''extension_id'')) \<and> q = p)
        \<and> packb env (PDict q) = Inr bs \<and> \<not> closed (publisher n)
      \<longrightarrow> publish env (PDict m) n
            = (Inr (), n\<lparr>publisher := (publisher n)\<lparr>sent := sent (publisher n)
                                                       @ [[str_encode env t, bs]]\<rparr>\<rparr>))"
proof -
  have missing: "map_of m (PStr ''payload'') = None
      \<Longrightarrow> publish env (PDict m) n = (Inl AttributeError, n)"
    by (simp add: publish_def dict_get_def lift_def then_do_simps Let_def)
  have send: "publish_payload env (PDict q) (PStr t) n
      = (Inr (), n\<lparr>publisher := (publisher n)\<lparr>sent := sent (publisher n)
                                                       @ [[str_encode env t, bs]]\<rparr>\<rparr>)"
    if "packb env (PDict q) = Inr bs" "\<not> closed (publisher n)"
    using that by (simp add: publish_payload_def send_multipart_def ok_def Let_def)
  have topic: "(if \<not> truthy (dict_get m (PStr ''topic'')) then PStr ADAPTER_TOPIC
                else dict_get m (PStr ''topic'')) = PStr t"
    if "map_of m (PStr ''topic'') = None \<and> t = ADAPTER_TOPIC
          \<or> map_of m (PStr ''topic'') = Some (PStr t) \<and> t \<noteq> []"
    using that by (auto simp: dict_get_def)
  have stamp: "then_do
         (if \<not> truthy (dict_get p (PStr ''extension_id''))
          then lift (py_setitem (PDict p) ''extension_id'' (PStr (get_extension_id n))) n
          else (Inr (PDict p), n)) f = f (PDict q) n"
    if "map_of p (PStr ''extension_id'') = None
               \<and> q = p @ [(PStr ''extension_id'', PStr (EXTENSION_ID n))]
             \<or> truthy (dict_get p (PStr ''extension_id'')) \<and> q = p"
    for f :: "pyval \<Rightarrow> node \<Rightarrow> unit result"
    using that
    by (auto simp: dict_get_def lift_def then_do_simps get_extension_id_def update_absent)
  show ?thesis
    using missing
    by (auto simp: publish_def Let_def lift_def then_do_simps topic stamp send
        dict_get_def [of m "PStr ''payload''"])
qed

lemma example_packb:
  "packb example_env (PDict [(PStr ''extension_id'', PStr ''eim'')])
     = Inr ([0x81, 0xac] @ ascii_encode ''extension_id'' @ [0xa3] @ ascii_encode ''eim'')"
  by (simp add: example_env_def example_messages_def)

text \<open>
  Two instances: the empty message raises; the message \<^verbatim>\<open>{"payload": {}}\<close> sends
  \<^verbatim>\<open>{"extension_id": "eim"}\<close> on \<open>ADAPTER_TOPIC\<close>.
\<close>

theorem publish_contract_witness:
  "publish example_env (PDict []) example_node = (Inl AttributeError, example_node)
   \<and> publish example_env (PDict [(PStr ''payload'', PDict [])]) example_node
       = (Inr (), example_node\<lparr>publisher := (publisher example_node)\<lparr>sent :=
            [[ascii_encode ADAPTER_TOPIC,
              [0x81, 0xac] @ ascii_encode ''extension_id'' @ [0xa3] @ ascii_encode ''eim'']]\<rparr>\<rparr>)"
proof -
  have e: "EXTENSION_ID example_node = ''eim''" "\<not> closed (publisher example_node)"
    "sent (publisher example_node) = []" "str_encode example_env = ascii_encode"
    by (simp_all add: example_node_def example_env_def)
  show ?thesis
    using publish_contract [of "[]" example_env example_node]
      publish_contract [of "[(PStr ''payload'', PDict [])]" example_env example_node "[]"
        ADAPTER_TOPIC "[(PStr ''extension_id'', PStr ''eim'')]"
        "[0x81, 0xac] @ ascii_encode ''extension_id'' @ [0xa3] @ ascii_encode ''eim''"]
      example_packb
    by (simp add: e)
qed

section \<open>The node: the handler registry\<close>

lemma handlers_add_handlers:
  "handlers (add_handlers regs n) key =
     (case handlers n key of None \<Rightarrow> None | Some hs \<Rightarrow> Some (hs @ registered regs key))"
proof (induction regs arbitrary: n)
  case Nil
  then show ?case by (simp add: add_handlers_def registered_def split: option.splits)
next
  case (Cons r regs)
  obtain f k where r: "r = (f, k)" by (cases r)
  have step: "add_handlers (r # regs) n = add_handlers regs (snd (add_handler f k n))"
    by (simp add: add_handlers_def r)
  have one: "handlers (snd (add_handler f k n)) key =
      (case handlers n key of None \<Rightarrow> None
       | Some hs \<Rightarrow> Some (hs @ (if callable f \<and> k = key then [f] else [])))"
    by (auto simp: add_handler_def raise_def ok_def split: option.splits)
  show ?case
    unfolding step Cons.IH one
    by (auto simp: registered_def r split: option.splits)
qed

lemma subscribe_all_handlers:
  "handlers (snd (subscribe_all env ts n)) = handlers n"
proof (induction ts arbitrary: n)
  case Nil
  then show ?case by (simp add: ok_def)
next
  case (Cons t ts)
  show ?case
  proof (cases "set_subscriber_topic env t n")
    case (Pair r n1)
    then have h: "handlers n1 = handlers n"
      by (auto simp: set_subscriber_topic_def raise_def ok_def split: pyval.splits sum.splits)
    from Pair h Cons.IH [of n1] show ?thesis
      by (cases r) (simp_all add: then_do_simps)
  qed
qed

lemma init_handlers:
  assumes "AdapterNode_init env nm ip sp pp sl proc idle = Inr n0"
  shows "handlers n0 = (map_of (map (\<lambda>k. (k, [])) message_types))(''all'' \<mapsto> [])"
proof -
  define addr where "addr = (case ip of None \<Rightarrow> ''127.0.0.1''
                    | Some a \<Rightarrow> if a \<noteq> [] then a else ''127.0.0.1'')"
  define base where "base = \<lparr>running = True,
               name = (if nm \<noteq> [] then nm else ''AdapterNode''),
               codelab_adapter_ip_address = addr,
               subscriber_port = sp,
               publisher_port = pp,
               subscriber_list = sl,
               external_message_processor = proc,
               receive_loop_idle_addition = idle,
               subscriber = socket_connect (''tcp://'' @ addr @ '':'' @ sp) new_socket,
               publisher = socket_connect (''tcp://'' @ addr @ '':'' @ pp) new_socket,
               zmq_terminated = False,
               EXTENSION_ID = ''eim'',
               handlers = (map_of (map (\<lambda>k. (k, [])) message_types))(''all'' \<mapsto> []),
               calls = []\<rparr>"
  from assms have "n0 = snd (subscribe_all env (case sl of None \<Rightarrow> [] | Some ts \<Rightarrow> ts) base)"
    by (auto simp: AdapterNode_init_def Let_def base_def addr_def split: prod.splits sum.splits)
  then show ?thesis
    by (simp add: subscribe_all_handlers) (simp add: base_def)
qed

lemma init_registry_keys:
  assumes "AdapterNode_init env nm ip sp pp sl proc idle = Inr n0"
  shows "handlers n0 key = (if key \<in> set message_types \<or> key = ''all'' then Some [] else None)"
  unfolding init_handlers [OF assms]
  by (auto simp: map_of_map_restrict restrict_map_def)

text \<open>
  Claim C10. On a node that the constructor returned and on which any handlers were
  registered since, for every callable and every class key that is neither one of the four
  message types nor \<^verbatim>\<open>"all"\<close>, \<^verbatim>\<open>add_handler\<close> raises \<^verbatim>\<open>KeyError\<close> and leaves the node, hence
  the registry, as it was, and \<^verbatim>\<open>get_handlers\<close> returns, without raising, exactly the
  handlers registered under \<^verbatim>\<open>"all"\<close>.
\<close>

theorem unknown_class_key:
  assumes "AdapterNode_init env nm ip sp pp sl proc idle = Inr n0"
    and "callable func" and "key \<notin> set message_types" and "key \<noteq> ''all''"
  shows "add_handler func key (add_handlers regs n0) = (Inl KeyError, add_handlers regs n0)
     \<and> get_handlers key (add_handlers regs n0) = Inr (registered regs ''all'')"
proof -
  have k: "handlers (add_handlers regs n0) key = None"
    using assms(3,4) by (simp add: handlers_add_handlers init_registry_keys [OF assms(1)])
  have a: "handlers (add_handlers regs n0) ''all'' = Some (registered regs ''all'')"
    by (simp add: handlers_add_handlers init_registry_keys [OF assms(1)])
  show ?thesis
    using assms(2) k a by (simp add: add_handler_def get_handlers_def raise_def)
qed

theorem unknown_class_key_witness:
  "add_handler (PFunc ''h'') ''bogus'' (add_handlers [(PFunc ''h3'', ''all'')] example_node)
     = (Inl KeyError, add_handlers [(PFunc ''h3'', ''all'')] example_node)
   \<and> get_handlers ''bogus'' (add_handlers [(PFunc ''h3'', ''all'')] example_node)
     = Inr [PFunc ''h3'']"
proof -
  have c: "callable (PFunc ''h'')" by simp
  have k: "''bogus'' \<notin> set message_types" "''bogus'' \<noteq> ''all''"
    by (simp_all add: message_types_def)
  show ?thesis
    using unknown_class_key [OF example_node_constructed c k, of "[(PFunc ''h3'', ''all'')]"]
    by (simp add: registered_def)
qed

section \<open>The node: dispatch\<close>

lemma topics_differ: "SCRATCH_TOPIC \<noteq> EXTENSIONS_OPERATE_TOPIC"
  by (simp add: SCRATCH_TOPIC_def EXTENSIONS_OPERATE_TOPIC_def)





text \<open>
  Claim C4. On a node whose identity is \<^verbatim>\<open>"eim"\<close>, for every topic and every payload that
  is a dictionary, \<^verbatim>\<open>message_handle\<close> makes these calls and no other, in this order: the
  extension-message hook, if the topic is \<open>SCRATCH_TOPIC\<close> and the payload's
  \<^verbatim>\<open>"extension_id"\<close> is \<^verbatim>\<open>"eim"\<close>; the exit hook, if the topic is
  \<open>EXTENSIONS_OPERATE_TOPIC\<close> and the payload's \<^verbatim>\<open>"extension_id"\<close> is \<^verbatim>\<open>"eim"\<close>; the external
  processor, if one was given, whatever the topic and the identity.
\<close>

theorem message_handle_routing:
  assumes "EXTENSION_ID n = ''eim''"
  shows "calls (snd (message_handle env topic (PDict p) n)) =
     calls n
     @ (if topic = SCRATCH_TOPIC \<and> dict_get p (PStr ''extension_id'') = PStr ''eim''
        then [Method ''extension_message_handle'' [PStr topic, PDict p]] else [])
     @ (if topic = EXTENSIONS_OPERATE_TOPIC \<and> dict_get p (PStr ''extension_id'') = PStr ''eim''
        then [Method ''exit_message_handle'' [PStr topic, PDict p]] else [])
     @ (if callable (external_message_processor n)
        then [Function (external_message_processor n) [PStr topic, PDict p]] else [])"
  using assms topics_differ
  by (cases "external_message_processor n")
    (auto simp: message_handle_def then_do_simps lift_def ok_def raise_def Let_def
      get_extension_id_def extension_message_handle_def exit_message_handle_def
      split: option.splits)

text \<open>
  Three instances on the example node with the external processor \<open>monitor\<close>: identity
  \<^verbatim>\<open>"eim"\<close> on \<open>SCRATCH_TOPIC\<close>, identity \<^verbatim>\<open>"other"\<close> on \<open>SCRATCH_TOPIC\<close>, identity \<^verbatim>\<open>"eim"\<close> on
  \<open>EXTENSIONS_OPERATE_TOPIC\<close>.
\<close>

theorem message_handle_routing_witness:
  "calls (snd (message_handle example_env SCRATCH_TOPIC
        (PDict [(PStr ''extension_id'', PStr ''eim'')])
        (example_node\<lparr>external_message_processor := PFunc ''monitor''\<rparr>)))
     = [Method ''extension_message_handle''
          [PStr SCRATCH_TOPIC, PDict [(PStr ''extension_id'', PStr ''eim'')]],
        Function (PFunc ''monitor'')
          [PStr SCRATCH_TOPIC, PDict [(PStr ''extension_id'', PStr ''eim'')]]]
   \<and> calls (snd (message_handle example_env SCRATCH_TOPIC
        (PDict [(PStr ''extension_id'', PStr ''other'')])
        (example_node\<lparr>external_message_processor := PFunc ''monitor''\<rparr>)))
     = [Function (PFunc ''monitor'')
          [PStr SCRATCH_TOPIC, PDict [(PStr ''extension_id'', PStr ''other'')]]]
   \<and> calls (snd (message_handle example_env EXTENSIONS_OPERATE_TOPIC
        (PDict [(PStr ''extension_id'', PStr ''eim'')])
        (example_node\<lparr>external_message_processor := PFunc ''monitor''\<rparr>)))
     = [Method ''exit_message_handle''
          [PStr EXTENSIONS_OPERATE_TOPIC, PDict [(PStr ''extension_id'', PStr ''eim'')]],
        Function (PFunc ''monitor'')
          [PStr EXTENSIONS_OPERATE_TOPIC, PDict [(PStr ''extension_id'', PStr ''eim'')]]]"
proof -
  have h: "EXTENSION_ID (example_node\<lparr>external_message_processor := PFunc ''monitor''\<rparr>) = ''eim''"
    by (simp add: example_node_def)
  have c: "calls (example_node\<lparr>external_message_processor := PFunc ''monitor''\<rparr>) = []"
    "external_message_processor (example_node\<lparr>external_message_processor := PFunc ''monitor''\<rparr>)
       = PFunc ''monitor''"
    by (simp_all add: example_node_def)
  show ?thesis
    using message_handle_routing [OF h, of example_env SCRATCH_TOPIC
        "[(PStr ''extension_id'', PStr ''eim'')]"]
      message_handle_routing [OF h, of example_env SCRATCH_TOPIC
        "[(PStr ''extension_id'', PStr ''other'')]"]
      message_handle_routing [OF h, of example_env EXTENSIONS_OPERATE_TOPIC
        "[(PStr ''extension_id'', PStr ''eim'')]"] topics_differ
    by (simp add: c dict_get_def)
qed

section \<open>The node: the receive loop\<close>

text \<open>
  Claim C1 against the code. On a running node, an inbound two-frame message whose topic
  decodes and whose payload bytes \<^verbatim>\<open>msgpack.unpackb\<close> rejects ends the loop: the exception
  of the decoder leaves \<^verbatim>\<open>receive_loop\<close>, the node is as it was, and whatever follows,
  the next well-formed message too, is never received.
\<close>

theorem malformed_payload_ends_loop:
  assumes "running n" and "bytes_decode env frame0 = Inr topic"
    and "unpackb env frame1 = Inl e" and "e \<noteq> Again"
  shows "receive_loop env (Message [frame0, frame1] # evs) n = (Raised e, n)"
  using assms
  by (simp add: loop_body_def try_block_def py_index_def lift_def then_do_simps raise_def)

lemma example_decode:
  "ascii_decode (ascii_encode SCRATCH_TOPIC) = Inr SCRATCH_TOPIC"
  by code_simp

text \<open>
  An instance: the byte \<^verbatim>\<open>0xc1\<close>, which no MessagePack value starts with, then the
  well-formed payload \<^verbatim>\<open>0x80\<close> (the empty map), both on \<open>SCRATCH_TOPIC\<close>.
\<close>

theorem malformed_payload_ends_loop_witness:
  "receive_loop example_env
     [Message [ascii_encode SCRATCH_TOPIC, [0xc1]], Message [ascii_encode SCRATCH_TOPIC, [0x80]]]
     example_node = (Raised UnpackException, example_node)
   \<and> unpackb example_env [0x80] = Inr (PDict [])"
proof -
  have r: "running example_node" by (simp add: example_node_def)
  have d: "bytes_decode example_env (ascii_encode SCRATCH_TOPIC) = Inr SCRATCH_TOPIC"
    by (simp add: example_env_def example_decode)
  have u: "unpackb example_env [0xc1] = Inl UnpackException"
    by (simp add: example_env_def example_messages_def)
  have g: "unpackb example_env [0x80] = Inr (PDict [])"
    by (simp add: example_env_def example_messages_def)
  have a: "UnpackException \<noteq> Again" by simp
  show ?thesis
    using malformed_payload_ends_loop [OF r d u a] g by simp
qed

lemma receive_loop_append:
  "receive_loop env pre n = (Pending, n1)
     \<Longrightarrow> receive_loop env (pre @ evs) n = receive_loop env evs n1"
proof (induction pre arbitrary: n)
  case Nil
  then show ?case by (cases evs) (auto split: if_splits)
next
  case (Cons ev pre)
  then show ?case
    by (cases "loop_body env ev n") (auto split: if_splits sum.splits)
qed

lemma pending_is_running:
  "receive_loop env pre n = (Pending, n1) \<Longrightarrow> running n1"
  by (induction pre arbitrary: n) (auto split: if_splits prod.splits sum.splits)

lemma interrupt_turn:
  assumes "idle_hook_returns env n"
  shows "\<exists>n1. loop_body env Interrupt n = (Inl KeyboardInterrupt, clean_up n1)"
  using assms
  by (cases "receive_loop_idle_addition n")
    (auto simp: loop_body_def try_block_def idle_block_def idle_hook_returns_def raise_def ok_def
      then_do_simps Let_def)

lemma clean_up_effect:
  "\<not> running (clean_up n) \<and> closed (publisher (clean_up n))
     \<and> closed (subscriber (clean_up n)) \<and> zmq_terminated (clean_up n)"
  by (simp add: clean_up_def socket_close_def Let_def)

text \<open>
  Claim C9, as the code has it. When the loop has come through some turns and is still
  running, and \<^verbatim>\<open>KeyboardInterrupt\<close> arrives during the idle sleep of the next turn (the idle
  hook, if any, having come back), the node shuts down in order, flag cleared, both sockets
  closed, the \<^verbatim>\<open>zmq\<close> context terminated, and the loop ends by raising
  \<^verbatim>\<open>KeyboardInterrupt\<close> to its caller.
\<close>

theorem interrupt_cleans_up_and_raises:
  assumes "receive_loop env pre n = (Pending, n1)" and "idle_hook_returns env n1"
  shows "fst (receive_loop env (pre @ Interrupt # evs) n) = Raised KeyboardInterrupt
     \<and> \<not> running (snd (receive_loop env (pre @ Interrupt # evs) n))
     \<and> closed (publisher (snd (receive_loop env (pre @ Interrupt # evs) n)))
     \<and> closed (subscriber (snd (receive_loop env (pre @ Interrupt # evs) n)))
     \<and> zmq_terminated (snd (receive_loop env (pre @ Interrupt # evs) n))"
proof -
  have run: "running n1"
    by (rule pending_is_running [OF assms(1)])
  obtain n2 where t: "loop_body env Interrupt n1 = (Inl KeyboardInterrupt, clean_up n2)"
    using interrupt_turn [OF assms(2)] by blast
  have "receive_loop env (pre @ Interrupt # evs) n = receive_loop env (Interrupt # evs) n1"
    by (rule receive_loop_append [OF assms(1)])
  also have "\<dots> = (Raised KeyboardInterrupt, clean_up n2)"
    using run t by simp
  finally show ?thesis by (simp add: clean_up_effect)
qed

theorem interrupt_cleans_up_and_raises_witness:
  "fst (receive_loop example_env [Idle, Interrupt, Idle] example_node) = Raised KeyboardInterrupt
   \<and> \<not> running (snd (receive_loop example_env [Idle, Interrupt, Idle] example_node))
   \<and> closed (publisher (snd (receive_loop example_env [Idle, Interrupt, Idle] example_node)))
   \<and> closed (subscriber (snd (receive_loop example_env [Idle, Interrupt, Idle] example_node)))
   \<and> zmq_terminated (snd (receive_loop example_env [Idle, Interrupt, Idle] example_node))"
proof -
  have p: "receive_loop example_env [Idle] example_node = (Pending, example_node)"
    by (simp add: loop_body_def try_block_def idle_block_def raise_def ok_def then_do_simps
        example_node_def)
  have h: "idle_hook_returns example_env example_node"
    by (simp add: idle_hook_returns_def example_node_def)
  show ?thesis
    using interrupt_cleans_up_and_raises [OF p h, of "[Idle]"] by simp
qed

text \<open>
  Where the claim as it was written fails: on the example node, an interrupt in the first
  idle sleep ends the loop with \<^verbatim>\<open>KeyboardInterrupt\<close> raised to the caller; the loop does
  not return.
\<close>

theorem interrupt_is_raised_again_counterexample:
  "fst (receive_loop example_env [Interrupt] example_node) = Raised KeyboardInterrupt
   \<and> fst (receive_loop example_env [Interrupt] example_node) \<noteq> Returned"
  by (simp add: loop_body_def try_block_def idle_block_def raise_def ok_def then_do_simps
      example_node_def)

section \<open>The envelope codec: decoding what was encoded\<close>

lemma andthen_simps:
  "andthen (Inl e) f = Inl e"
  "andthen (Inr x) f = f x"
  by (simp_all add: andthen_def)

lemma andthen_Inr:
  "andthen r f = Inr y \<longleftrightarrow> (\<exists>x. r = Inr x \<and> f x = Inr y)"
  by (cases r) (simp_all add: andthen_def)

lemma unat_byte: "n < 256 \<Longrightarrow> unat (of_nat n :: 8 word) = n"
  by (simp add: unat_of_nat)

lemma length_be: "length (be k n) = k"
  by (induction k arbitrary: n) simp_all

lemma foldl_be:
  "n < 256 ^ k \<Longrightarrow> foldl (\<lambda>a b. a * 256 + unat b) a (be k n) = a * 256 ^ k + n"
proof (induction k arbitrary: a n)
  case 0
  then show ?case by simp
next
  case (Suc k)
  have d: "n div 256 ^ k < 256"
    using Suc.prems by (simp add: less_mult_imp_div_less mult.commute)
  have m: "n mod 256 ^ k < 256 ^ k" by simp
  have "foldl (\<lambda>a b. a * 256 + unat b) a (be (Suc k) n)
      = (a * 256 + n div 256 ^ k) * 256 ^ k + n mod 256 ^ k"
    by (simp add: unat_byte [OF d] Suc.IH [OF m])
  also have "\<dots> = a * 256 ^ Suc k + (n div 256 ^ k * 256 ^ k + n mod 256 ^ k)"
    by (simp add: algebra_simps)
  also have "\<dots> = a * 256 ^ Suc k + n" by (simp only: div_mult_mod_eq)
  finally show ?case .
qed

lemma from_be_be: "n < 256 ^ k \<Longrightarrow> from_be (be k n) = n"
  by (simp add: from_be_def foldl_be)

lemma read_be_be: "n < 256 ^ k \<Longrightarrow> read_be k (be k n @ rest) = Inr (n, rest)"
  by (simp add: read_be_def length_be from_be_be)

lemma read_raw_append: "read_raw (length xs) (xs @ rest) = Inr (xs, rest)"
  by (simp add: read_raw_def)

lemma read_be_1: "read_be (Suc 0) (b # rest) = Inr (unat b, rest)"
  by (simp add: read_be_def from_be_def)

lemma read_be_2: "n < 65536 \<Longrightarrow> read_be 2 (be 2 n @ rest) = Inr (n, rest)"
  using read_be_be [of n 2 rest] by simp

lemma read_be_4: "n < 4294967296 \<Longrightarrow> read_be 4 (be 4 n @ rest) = Inr (n, rest)"
  using read_be_be [of n 4 rest] by simp

lemma read_be_8: "n < 18446744073709551616 \<Longrightarrow> read_be 8 (be 8 n @ rest) = Inr (n, rest)"
  using read_be_be [of n 8 rest] by simp

lemma unat_of_int_byte: "unat (of_int i :: 8 word) = nat (i mod 256)"
  by (simp add: unat_eq_nat_uint uint_word_of_int)

lemma neg_mod_256:
  fixes i :: int
  assumes "- 256 \<le> i" and "i < 0"
  shows "i mod 256 = i + 256"
proof -
  have "i mod 256 = (i + 256) mod 256" by simp
  also have "\<dots> = i + 256" by (rule mod_pos_pos_trivial) (use assms in simp_all)
  finally show ?thesis .
qed

lemma head_fixint:
  "unat b0 < 0x80 \<Longrightarrow> read_head (b0 # bs) = Inr (Scalar (PInt (int (unat b0))) bs)"
  by (simp add: read_head_def)

lemma head_negative_fixint:
  "0xE0 \<le> unat b0 \<Longrightarrow> read_head (b0 # bs) = Inr (Scalar (PInt (int (unat b0) - 0x100)) bs)"
  by (simp add: read_head_def Let_def)

lemma head_fixstr:
  "0xA0 \<le> unat b0 \<Longrightarrow> unat b0 < 0xC0
     \<Longrightarrow> read_head (b0 # bs) = scalar (unpack_str (unat b0 - 0xA0) bs)"
  by (simp add: read_head_def Let_def)

lemma head_fixarray:
  "0x90 \<le> unat b0 \<Longrightarrow> unat b0 < 0xA0
     \<Longrightarrow> read_head (b0 # bs) = Inr (Array (unat b0 - 0x90) bs)"
  by (simp add: read_head_def Let_def)

lemma head_fixmap:
  "0x80 \<le> unat b0 \<Longrightarrow> unat b0 < 0x90
     \<Longrightarrow> read_head (b0 # bs) = Inr (Map (unat b0 - 0x80) bs)"
  by (simp add: read_head_def Let_def)

lemma head_codes:
  "read_head (0xC0 # bs) = Inr (Scalar PNone bs)"
  "read_head (0xC2 # bs) = Inr (Scalar (PBool False) bs)"
  "read_head (0xC3 # bs) = Inr (Scalar (PBool True) bs)"
  "read_head (0xC4 # bs) = scalar (andthen (read_be 1 bs) (\<lambda>(n, rest). unpack_bin n rest))"
  "read_head (0xC5 # bs) = scalar (andthen (read_be 2 bs) (\<lambda>(n, rest). unpack_bin n rest))"
  "read_head (0xC6 # bs) = scalar (andthen (read_be 4 bs) (\<lambda>(n, rest). unpack_bin n rest))"
  "read_head (0xCB # bs)
     = scalar (andthen (read_be 8 bs) (\<lambda>(n, rest). Inr (PFloat (of_nat n), rest)))"
  "read_head (0xCC # bs) = scalar (unpack_uint 1 bs)"
  "read_head (0xCD # bs) = scalar (unpack_uint 2 bs)"
  "read_head (0xCE # bs) = scalar (unpack_uint 4 bs)"
  "read_head (0xCF # bs) = scalar (unpack_uint 8 bs)"
  "read_head (0xD0 # bs) = scalar (unpack_sint 1 bs)"
  "read_head (0xD1 # bs) = scalar (unpack_sint 2 bs)"
  "read_head (0xD2 # bs) = scalar (unpack_sint 4 bs)"
  "read_head (0xD3 # bs) = scalar (unpack_sint 8 bs)"
  "read_head (0xD9 # bs) = scalar (andthen (read_be 1 bs) (\<lambda>(n, rest). unpack_str n rest))"
  "read_head (0xDA # bs) = scalar (andthen (read_be 2 bs) (\<lambda>(n, rest). unpack_str n rest))"
  "read_head (0xDB # bs) = scalar (andthen (read_be 4 bs) (\<lambda>(n, rest). unpack_str n rest))"
  "read_head (0xDC # bs) = andthen (read_be 2 bs) (\<lambda>(n, rest). Inr (Array n rest))"
  "read_head (0xDD # bs) = andthen (read_be 4 bs) (\<lambda>(n, rest). Inr (Array n rest))"
  "read_head (0xDE # bs) = andthen (read_be 2 bs) (\<lambda>(n, rest). Inr (Map n rest))"
  "read_head (0xDF # bs) = andthen (read_be 4 bs) (\<lambda>(n, rest). Inr (Map n rest))"
  by (simp_all add: read_head_def)


lemmas scalar_simps = scalar_def unpack_uint_def unpack_sint_def andthen_simps
  read_be_1 read_be_2 read_be_4 read_be_8 unat_of_int_byte head_codes

lemma head_int:
  assumes "pack_int i = Inr bs"
  shows "read_head (bs @ rest) = Inr (Scalar (PInt i) rest)"
proof -
  consider (a) "0 \<le> i" "i < 0x80" | (b) "- 0x20 \<le> i" "i < 0" | (c) "0x80 \<le> i" "i \<le> 0xFF"
    | (d) "- 0x80 \<le> i" "i < - 0x20" | (e) "0xFF < i" "i \<le> 0xFFFF"
    | (f) "- 0x8000 \<le> i" "i < - 0x80" | (g) "0xFFFF < i" "i \<le> 0xFFFFFFFF"
    | (h) "- 0x80000000 \<le> i" "i < - 0x8000" | (j) "0xFFFFFFFF < i" "i \<le> 0xFFFFFFFFFFFFFFFF"
    | (k) "- 0x8000000000000000 \<le> i" "i < - 0x80000000"
    | (l) "0xFFFFFFFFFFFFFFFF < i \<or> i < - 0x8000000000000000"
    by linarith
  then show ?thesis
  proof cases
    case a
    then have bs: "bs = [of_int i]" using assms by (simp add: pack_int_def)
    have u: "unat (of_int i :: 8 word) = nat i" using a by (simp add: unat_of_int_byte)
    show ?thesis unfolding bs using a by (simp add: head_fixint u)
  next
    case b
    then have bs: "bs = [of_int i]" using assms by (simp add: pack_int_def)
    have u: "unat (of_int i :: 8 word) = nat (i + 256)"
      using b by (simp add: unat_of_int_byte neg_mod_256)
    show ?thesis unfolding bs using b by (simp add: head_negative_fixint u)
  next
    case c
    then have bs: "bs = [0xCC, of_int i]" using assms by (simp add: pack_int_def)
    have "i mod 256 = i" using c by simp
    then show ?thesis unfolding bs using c by (simp add: scalar_simps)
  next
    case d
    then have bs: "bs = [0xD0, of_int i]" using assms by (simp add: pack_int_def)
    have "i mod 256 = i + 256" using d by (simp add: neg_mod_256)
    then show ?thesis unfolding bs using d by (simp add: scalar_simps)
  next
    case e
    then have bs: "bs = 0xCD # be 2 (nat i)" using assms by (simp add: pack_int_def)
    show ?thesis unfolding bs using e by (simp add: scalar_simps)
  next
    case f
    then have bs: "bs = 0xD1 # be 2 (nat (i + 2 ^ 16))" using assms by (simp add: pack_int_def)
    show ?thesis unfolding bs using f by (simp add: scalar_simps)
  next
    case g
    then have bs: "bs = 0xCE # be 4 (nat i)" using assms by (simp add: pack_int_def)
    show ?thesis unfolding bs using g by (simp add: scalar_simps)
  next
    case h
    then have bs: "bs = 0xD2 # be 4 (nat (i + 2 ^ 32))" using assms by (simp add: pack_int_def)
    show ?thesis unfolding bs using h by (simp add: scalar_simps)
  next
    case j
    then have bs: "bs = 0xCF # be 8 (nat i)" using assms by (simp add: pack_int_def)
    show ?thesis unfolding bs using j by (simp add: scalar_simps)
  next
    case k
    then have bs: "bs = 0xD3 # be 8 (nat (i + 2 ^ 64))" using assms by (simp add: pack_int_def)
    show ?thesis unfolding bs using k by (simp add: scalar_simps)
  next
    case l
    then show ?thesis using assms by (auto simp: pack_int_def)
  qed
qed


lemma unat_add_byte: "k + n < 256 \<Longrightarrow> unat (of_nat k + of_nat n :: 8 word) = k + n"
  using unat_byte [of "k + n"] by simp

lemma unat_char: "unat (of_nat (of_char c) :: 8 word) = of_char c"
  by (simp add: unat_of_nat)

lemma unpack_str_ok:
  assumes "valid_utf8 (map of_char s)"
  shows "unpack_str (length s) (map (\<lambda>c. of_nat (of_char c)) s @ rest) = Inr (PStr s, rest)"
proof -
  have r: "read_raw (length s) (map (\<lambda>c. of_nat (of_char c)) s @ rest)
      = Inr (map (\<lambda>c. of_nat (of_char c)) s, rest)"
    using read_raw_append [of "map (\<lambda>c. of_nat (of_char c)) s" rest] by simp
  have u: "map unat (map (\<lambda>c. of_nat (of_char c) :: 8 word) s) = map of_char s"
    by (simp add: unat_char)
  have c: "map (\<lambda>b. char_of (unat b)) (map (\<lambda>c. of_nat (of_char c) :: 8 word) s) = s"
    by (simp add: unat_char comp_def)
  show ?thesis
    unfolding unpack_str_def r andthen_simps using assms by (simp add: u c del: map_map)
qed

lemma head_str:
  assumes "pack (PStr s) = Inr bs" and "valid_utf8 (map of_char s)"
  shows "read_head (bs @ rest) = Inr (Scalar (PStr s) rest)"
proof -
  let ?raw = "map (\<lambda>c. of_nat (of_char c) :: 8 word) s"
  consider (a) "length s \<le> 0x1F" | (b) "0x1F < length s" "length s \<le> 0xFF"
    | (c) "0xFF < length s" "length s \<le> 0xFFFF"
    | (d) "0xFFFF < length s" "length s \<le> 0xFFFFFFFF" | (e) "0xFFFFFFFF < length s"
    by linarith
  then show ?thesis
  proof cases
    case a
    then have bs: "bs = of_nat (0xA0 + length s) # ?raw"
      using assms(1) by (simp add: raw_header_def andthen_simps)
    have u: "unat (0xA0 + of_nat (length s) :: 8 word) = 0xA0 + length s"
      using a unat_add_byte [of "0xA0" "length s"] by simp
    show ?thesis
      unfolding bs using a unpack_str_ok [OF assms(2), of rest]
      by (simp add: head_fixstr u scalar_def andthen_simps)
  next
    case b
    then have bs: "bs = [0xD9, of_nat (length s)] @ ?raw"
      using assms(1) by (simp add: raw_header_def andthen_simps)
    have u: "unat (of_nat (length s) :: 8 word) = length s"
      using b by (simp add: unat_of_nat)
    show ?thesis
      unfolding bs using unpack_str_ok [OF assms(2), of rest]
      by (simp add: scalar_simps u)
  next
    case c
    then have bs: "bs = (0xDA # be 2 (length s)) @ ?raw"
      using assms(1) by (simp add: raw_header_def andthen_simps)
    show ?thesis
      unfolding bs using c unpack_str_ok [OF assms(2), of rest]
      by (simp add: scalar_simps)
  next
    case d
    then have bs: "bs = (0xDB # be 4 (length s)) @ ?raw"
      using assms(1) by (simp add: raw_header_def andthen_simps)
    show ?thesis
      unfolding bs using d unpack_str_ok [OF assms(2), of rest]
      by (simp add: scalar_simps)
  next
    case e
    then show ?thesis using assms(1) by (simp add: raw_header_def andthen_simps)
  qed
qed

lemma head_bytes:
  assumes "pack (PBytes raw) = Inr bs"
  shows "read_head (bs @ rest) = Inr (Scalar (PBytes raw) rest)"
proof -
  consider (b) "length raw \<le> 0xFF"
    | (c) "0xFF < length raw" "length raw \<le> 0xFFFF"
    | (d) "0xFFFF < length raw" "length raw \<le> 0xFFFFFFFF" | (e) "0xFFFFFFFF < length raw"
    by linarith
  then show ?thesis
  proof cases
    case b
    then have bs: "bs = [0xC4, of_nat (length raw)] @ raw"
      using assms(1) by (simp add: bin_header_def andthen_simps)
    have u: "unat (of_nat (length raw) :: 8 word) = length raw"
      using b by (simp add: unat_of_nat)
    show ?thesis
      unfolding bs by (simp add: scalar_simps u unpack_bin_def read_raw_append)
  next
    case c
    then have bs: "bs = (0xC5 # be 2 (length raw)) @ raw"
      using assms(1) by (simp add: bin_header_def andthen_simps)
    show ?thesis
      unfolding bs using c by (simp add: scalar_simps unpack_bin_def read_raw_append)
  next
    case d
    then have bs: "bs = (0xC6 # be 4 (length raw)) @ raw"
      using assms(1) by (simp add: bin_header_def andthen_simps)
    show ?thesis
      unfolding bs using d by (simp add: scalar_simps unpack_bin_def read_raw_append)
  next
    case e
    then show ?thesis using assms(1) by (simp add: bin_header_def andthen_simps)
  qed
qed

lemma head_float: "read_head ((0xCB # be 8 (unat w)) @ rest) = Inr (Scalar (PFloat w) rest)"
proof -
  have "unat w < 18446744073709551616"
    using unsigned_less [of w, where 'a = nat] by simp
  then show ?thesis by (simp add: scalar_simps)
qed

lemma head_array:
  assumes "array_header n = Inr h"
  shows "read_head (h @ bs) = Inr (Array n bs)"
proof -
  consider (a) "n \<le> 0x0F" | (c) "0x0F < n" "n \<le> 0xFFFF"
    | (d) "0xFFFF < n" "n \<le> 0xFFFFFFFF" | (e) "0xFFFFFFFF < n"
    by linarith
  then show ?thesis
  proof cases
    case a
    then have h: "h = [of_nat (0x90 + n)]" using assms by (simp add: array_header_def)
    have u: "unat (0x90 + of_nat n :: 8 word) = 0x90 + n"
      using a unat_add_byte [of "0x90" n] by simp
    show ?thesis unfolding h using a by (simp add: head_fixarray u)
  next
    case c
    then have h: "h = 0xDC # be 2 n" using assms by (simp add: array_header_def)
    show ?thesis unfolding h using c by (simp add: scalar_simps)
  next
    case d
    then have h: "h = 0xDD # be 4 n" using assms by (simp add: array_header_def)
    show ?thesis unfolding h using d by (simp add: scalar_simps)
  next
    case e
    then show ?thesis using assms by (simp add: array_header_def)
  qed
qed

lemma head_map:
  assumes "map_header n = Inr h"
  shows "read_head (h @ bs) = Inr (Map n bs)"
proof -
  consider (a) "n \<le> 0x0F" | (c) "0x0F < n" "n \<le> 0xFFFF"
    | (d) "0xFFFF < n" "n \<le> 0xFFFFFFFF" | (e) "0xFFFFFFFF < n"
    by linarith
  then show ?thesis
  proof cases
    case a
    then have h: "h = [of_nat (0x80 + n)]" using assms by (simp add: map_header_def)
    have u: "unat (0x80 + of_nat n :: 8 word) = 0x80 + n"
      using a unat_add_byte [of "0x80" n] by simp
    show ?thesis unfolding h using a by (simp add: head_fixmap u)
  next
    case c
    then have h: "h = 0xDE # be 2 n" using assms by (simp add: map_header_def)
    show ?thesis unfolding h using c by (simp add: scalar_simps)
  next
    case d
    then have h: "h = 0xDF # be 4 n" using assms by (simp add: map_header_def)
    show ?thesis unfolding h using d by (simp add: scalar_simps)
  next
    case e
    then show ?thesis using assms by (simp add: map_header_def)
  qed
qed



lemma pack_seq_Cons:
  "pack_seq (r # rs) = Inr body \<longleftrightarrow> (\<exists>b bs. r = Inr b \<and> pack_seq rs = Inr bs \<and> body = b @ bs)"
  by (cases r; cases "pack_seq rs") (auto simp: andthen_simps)

lemma unpack_scalar:
  "read_head bs = Inr (Scalar v rest) \<Longrightarrow> 0 < f \<Longrightarrow> unpack f bs = Inr (v, rest)"
  by (cases f) (simp_all add: andthen_simps)

lemma header_nonempty:
  "raw_header n = Inr h \<Longrightarrow> h \<noteq> []"
  "bin_header n = Inr h \<Longrightarrow> h \<noteq> []"
  "array_header n = Inr h \<Longrightarrow> h \<noteq> []"
  "map_header n = Inr h \<Longrightarrow> h \<noteq> []"
  by (auto simp: raw_header_def bin_header_def array_header_def map_header_def split: if_splits)

lemma pack_nonempty: "pack v = Inr bs \<Longrightarrow> bs \<noteq> []"
proof (cases v)
  case (PInt i)
  then show "pack v = Inr bs \<Longrightarrow> bs \<noteq> []"
    by (auto simp: pack_int_def split: if_splits)
qed (auto simp: andthen_Inr dest: header_nonempty)

lemma dict_of_distinct:
  "distinct (map fst kvs) \<Longrightarrow> dict_of kvs = kvs"
proof -
  have "distinct (map fst (d @ kvs))
      \<Longrightarrow> foldl (\<lambda>d (k, v). AList.update k v d) d kvs = d @ kvs" for d
  proof (induction kvs arbitrary: d)
    case Nil
    then show ?case by simp
  next
    case (Cons kv kvs)
    obtain k v where kv: "kv = (k, v)" by (cases kv)
    from Cons.prems kv have "k \<notin> fst ` set d" by auto
    then have "map_of d k = None" by (simp add: map_of_eq_None_iff)
    then have u: "AList.update k v d = d @ [(k, v)]"
      by (induction d) (auto split: if_splits)
    from Cons.prems kv have "distinct (map fst ((d @ [(k, v)]) @ kvs))" by simp
    from Cons.IH [OF this] show ?case by (simp add: kv u)
  qed
  from this [of "[]"] show "distinct (map fst kvs) \<Longrightarrow> dict_of kvs = kvs"
    by (simp add: dict_of_def)
qed

lemma unpack_items_pack:
  assumes "\<And>x b rest. x \<in> set xs \<Longrightarrow> pack x = Inr b \<Longrightarrow> length b \<le> f
              \<Longrightarrow> unpack f (b @ rest) = Inr (x, rest)"
    and "pack_seq (map pack xs) = Inr body" and "length body \<le> f"
  shows "unpack_items f (length xs) (body @ rest) = Inr (xs, rest)"
  using assms
proof (induction xs arbitrary: body)
  case Nil
  then show ?case by simp
next
  case (Cons x xs)
  from Cons.prems(2) obtain b bs where b: "pack x = Inr b" "pack_seq (map pack xs) = Inr bs"
    "body = b @ bs"
    by (auto simp: andthen_Inr)
  from Cons.prems(3) b(3) have l: "length b \<le> f" "length bs \<le> f" by simp_all
  have x: "unpack f (b @ bs @ rest) = Inr (x, bs @ rest)"
    using Cons.prems(1) [of x b "bs @ rest"] b(1) l(1) by simp
  have xs: "unpack_items f (length xs) (bs @ rest) = Inr (xs, rest)"
    using Cons.IH [OF _ b(2) l(2)] Cons.prems(1) by simp
  show ?case by (simp add: b(3) x xs andthen_simps)
qed

lemma unpack_pairs_pack:
  assumes "\<And>kv b rest. kv \<in> set kvs \<Longrightarrow> pack (fst kv) = Inr b \<Longrightarrow> length b \<le> f
              \<Longrightarrow> unpack f (b @ rest) = Inr (fst kv, rest)"
    and "\<And>kv b rest. kv \<in> set kvs \<Longrightarrow> pack (snd kv) = Inr b \<Longrightarrow> length b \<le> f
              \<Longrightarrow> unpack f (b @ rest) = Inr (snd kv, rest)"
    and "\<forall>kv\<in>set kvs. is_map_key (fst kv)"
    and "pack_seq (concat (map (\<lambda>kv. [pack (fst kv), pack (snd kv)]) kvs)) = Inr body"
    and "length body \<le> f"
  shows "unpack_pairs f (length kvs) (body @ rest) = Inr (kvs, rest)"
  using assms
proof (induction kvs arbitrary: body)
  case Nil
  then show ?case by simp
next
  case (Cons kv kvs)
  from Cons.prems(4) obtain bk bv bs where b: "pack (fst kv) = Inr bk" "pack (snd kv) = Inr bv"
    "pack_seq (concat (map (\<lambda>kv. [pack (fst kv), pack (snd kv)]) kvs)) = Inr bs"
    "body = bk @ bv @ bs"
    by (auto simp: andthen_Inr)
  from Cons.prems(5) b(4) have l: "length bk \<le> f" "length bv \<le> f" "length bs \<le> f"
    by simp_all
  have k: "unpack f (bk @ bv @ bs @ rest) = Inr (fst kv, bv @ bs @ rest)"
    using Cons.prems(1) [of kv bk "bv @ bs @ rest"] b(1) l(1) by simp
  have v: "unpack f (bv @ bs @ rest) = Inr (snd kv, bs @ rest)"
    using Cons.prems(2) [of kv bv "bs @ rest"] b(2) l(2) by simp
  have key: "is_map_key (fst kv)" using Cons.prems(3) by simp
  have kvs: "unpack_pairs f (length kvs) (bs @ rest) = Inr (kvs, rest)"
    using Cons.IH [OF _ _ _ b(3) l(3)] Cons.prems(1,2,3) by simp
  show ?case by (simp add: b(4) k v key kvs andthen_simps)
qed


lemma unpack_pack:
  "wellformed v \<Longrightarrow> pack v = Inr bs \<Longrightarrow> length bs \<le> f
     \<Longrightarrow> unpack f (bs @ rest) = Inr (v, rest)"
proof (induction v arbitrary: bs f rest)
  case PNone
  then show ?case by (auto intro!: unpack_scalar simp: head_codes)
next
  case (PBool b)
  then show ?case by (auto intro!: unpack_scalar simp: head_codes)
next
  case (PInt i)
  from PInt.prems(2) have "bs \<noteq> []" by (rule pack_nonempty)
  with PInt.prems(3) have "0 < f" by (cases bs) auto
  with PInt.prems(2) show ?case by (auto intro!: unpack_scalar head_int)
next
  case (PFloat w)
  then have bs: "bs = 0xCB # be 8 (unat w)" by simp
  with PFloat.prems(3) have "0 < f" by auto
  then show ?case unfolding bs by (intro unpack_scalar head_float)
next
  case (PStr s)
  from PStr.prems(2) have "bs \<noteq> []" by (rule pack_nonempty)
  with PStr.prems(3) have "0 < f" by (cases bs) auto
  with PStr.prems(1,2) show ?case by (auto intro!: unpack_scalar head_str)
next
  case (PBytes raw)
  from PBytes.prems(2) have "bs \<noteq> []" by (rule pack_nonempty)
  with PBytes.prems(3) have "0 < f" by (cases bs) auto
  with PBytes.prems(2) show ?case by (auto intro!: unpack_scalar head_bytes)
next
  case (PList xs)
  from PList.prems(2) obtain h body where h: "array_header (length xs) = Inr h"
    and body: "pack_seq (map pack xs) = Inr body" and bs: "bs = h @ body"
    by (auto simp: andthen_Inr)
  from h have "h \<noteq> []" by (rule header_nonempty)
  with PList.prems(3) bs obtain f1 where f: "f = Suc f1" and l: "length body \<le> f1"
    by (cases f; cases h) auto
  have items: "unpack_items f1 (length xs) (body @ rest) = Inr (xs, rest)"
  proof (rule unpack_items_pack [OF _ body l])
    fix x b r
    assume "x \<in> set xs" "pack x = Inr b" "length b \<le> f1"
    with PList.IH [of x b f1 r] PList.prems(1) show "unpack f1 (b @ r) = Inr (x, r)"
      by simp
  qed
  show ?case
    unfolding f bs by (simp add: head_array [OF h] items andthen_simps)
next
  case (PDict kvs)
  from PDict.prems(2) obtain h body where h: "map_header (length kvs) = Inr h"
    and body: "pack_seq (concat (map (\<lambda>kv. [pack (fst kv), pack (snd kv)]) kvs)) = Inr body"
    and bs: "bs = h @ body"
    by (auto simp: andthen_Inr)
  from h have "h \<noteq> []" by (rule header_nonempty)
  with PDict.prems(3) bs obtain f1 where f: "f = Suc f1" and l: "length body \<le> f1"
    by (cases f; cases h) auto
  from PDict.prems(1) have keys: "\<forall>kv\<in>set kvs. is_map_key (fst kv)"
    and d: "distinct (map fst kvs)" by simp_all
  have pairs: "unpack_pairs f1 (length kvs) (body @ rest) = Inr (kvs, rest)"
  proof (rule unpack_pairs_pack [OF _ _ keys body l])
    fix kv b r
    assume a: "kv \<in> set kvs" "pack (fst kv) = Inr b" "length b \<le> f1"
    obtain k v where kv: "kv = (k, v)" by (cases kv)
    from a kv PDict.IH(1) [of kv k b f1 r] PDict.prems(1)
    show "unpack f1 (b @ r) = Inr (fst kv, r)" by auto
  next
    fix kv b r
    assume a: "kv \<in> set kvs" "pack (snd kv) = Inr b" "length b \<le> f1"
    obtain k v where kv: "kv = (k, v)" by (cases kv)
    from a kv PDict.IH(2) [of kv v b f1 r] PDict.prems(1)
    show "unpack f1 (b @ r) = Inr (snd kv, r)" by auto
  qed
  show ?case
    unfolding f bs by (simp add: head_map [OF h] pairs andthen_simps dict_of_distinct [OF d])
next
  case (PFunc g)
  then show ?case by simp
qed

lemma pack_seq_total:
  "\<forall>r\<in>set rs. \<exists>b. r = Inr b \<Longrightarrow> \<exists>body. pack_seq rs = Inr body"
  by (induction rs) (auto simp: andthen_simps)

lemma pack_total: "in_range v \<Longrightarrow> \<exists>bs. pack v = Inr bs"
proof (induction v)
  case (PInt i)
  then show ?case by (simp add: pack_int_def)
next
  case (PStr s)
  then show ?case by (simp add: raw_header_def andthen_simps)
next
  case (PBytes raw)
  then show ?case by (simp add: bin_header_def andthen_simps)
next
  case (PList xs)
  then have "\<forall>r\<in>set (map pack xs). \<exists>b. r = Inr b" by auto
  from pack_seq_total [OF this] obtain body where "pack_seq (map pack xs) = Inr body" ..
  with PList.prems show ?case by (simp add: array_header_def andthen_simps)
next
  case (PDict kvs)
  have "\<forall>r\<in>set (concat (map (\<lambda>kv. [pack (fst kv), pack (snd kv)]) kvs)). \<exists>b. r = Inr b"
  proof
    fix r
    assume "r \<in> set (concat (map (\<lambda>kv. [pack (fst kv), pack (snd kv)]) kvs))"
    then obtain kv where kv: "kv \<in> set kvs" "r = pack (fst kv) \<or> r = pack (snd kv)" by auto
    obtain k v where p: "kv = (k, v)" by (cases kv)
    from kv p PDict.IH(1) [of kv k] PDict.IH(2) [of kv v] PDict.prems
    show "\<exists>b. r = Inr b" by auto
  qed
  from pack_seq_total [OF this] obtain body
    where "pack_seq (concat (map (\<lambda>kv. [pack (fst kv), pack (snd kv)]) kvs)) = Inr body" ..
  with PDict.prems show ?case by (simp add: map_header_def andthen_simps)
qed simp_all

text \<open>
  Claim C3, for the codec as modelled. For every well-formed payload, mappings from string
  keys to integers, floats, strings, booleans, nulls, sequences and mappings, nested to any
  depth: encoding yields bytes whenever the payload is in the range of the format, and
  whenever encoding yields bytes, decoding these bytes yields the payload itself.
\<close>

theorem msgpack_round_trip:
  assumes "wellformed v"
  shows "(in_range v \<longrightarrow> (\<exists>bs. msgpack_packb v = Inr bs))
     \<and> (\<forall>bs. msgpack_packb v = Inr bs \<longrightarrow> msgpack_unpackb bs = Inr v)"
proof -
  have "msgpack_unpackb bs = Inr v" if "msgpack_packb v = Inr bs" for bs
  proof -
    from that have p: "pack v = Inr bs" by (simp add: msgpack_packb_def)
    from unpack_pack [OF assms p, of "length bs" "[]"]
    show ?thesis by (simp add: msgpack_unpackb_def andthen_simps)
  qed
  then show ?thesis using pack_total [of v] by (auto simp: msgpack_packb_def)
qed

lemma be_numeral:
  "be (numeral k) n
     = of_nat (n div 256 ^ pred_numeral k) # be (pred_numeral k) (n mod 256 ^ pred_numeral k)"
  by (simp add: numeral_eq_Suc)

text \<open>An instance: the example payload and the 46 bytes of its frame.\<close>

theorem msgpack_round_trip_witness:
  "msgpack_packb example_payload =
     Inr [129, 167, 99, 111, 110, 116, 101, 110, 116, 152, 1, 209, 255, 56, 206,
          0, 1, 17, 112, 203, 64, 12, 0, 0, 0, 0, 0, 0, 162, 104, 105, 195, 192,
          129, 161, 107, 145, 207, 0, 0, 0, 1, 42, 5, 242, 0]
   \<and> msgpack_unpackb
       [129, 167, 99, 111, 110, 116, 101, 110, 116, 152, 1, 209, 255, 56, 206,
        0, 1, 17, 112, 203, 64, 12, 0, 0, 0, 0, 0, 0, 162, 104, 105, 195, 192,
        129, 161, 107, 145, 207, 0, 0, 0, 1, 42, 5, 242, 0] = Inr example_payload"
proof -
  have w: "wellformed example_payload"
    by (simp add: example_payload_def)
  have e: "msgpack_packb example_payload =
     Inr [129, 167, 99, 111, 110, 116, 101, 110, 116, 152, 1, 209, 255, 56, 206,
          0, 1, 17, 112, 203, 64, 12, 0, 0, 0, 0, 0, 0, 162, 104, 105, 195, 192,
          129, 161, 107, 145, 207, 0, 0, 0, 1, 42, 5, 242, 0]"
    by (simp add: example_payload_def msgpack_packb_def map_header_def array_header_def
        raw_header_def pack_int_def andthen_simps be_numeral)
  show ?thesis
    using msgpack_round_trip [OF w] e by blast
qed

end
